theory Spec2Isabelle
  imports Complex_Main "HOL-Library.Word"
begin

unbundle bit_operations_syntax

section \<open>Machine arithmetic\<close>

text \<open>
  The program is \<^verbatim>\<open>src/main.c\<close>. A \<^verbatim>\<open>uint8_t\<close> is an \<open>8 word\<close>. Values of type
  \<^verbatim>\<open>int\<close> and \<^verbatim>\<open>int32_t\<close> are mathematical integers on which every arithmetic result is
  brought back into the 32-bit two's complement range by \<open>wrap32\<close> (what the usual targets
  compute; ISO C leaves signed overflow undefined). Since \<open>wrap32\<close> respects \<open>+\<close>, \<open>-\<close> and
  \<open>*\<close> modulo \<open>2 ^ 32\<close>, wrapping an expression once at the outside equals wrapping each of
  its operations. \<^verbatim>\<open>size_t\<close> is 64 bits wide and \<^verbatim>\<open>long\<close> holds every \<^verbatim>\<open>uint32_t\<close>.
\<close>

type_synonym byte = "8 word"

definition wrap32 :: "int \<Rightarrow> int" where
  "wrap32 i = (i + 2 ^ 31) mod 2 ^ 32 - 2 ^ 31"

definition size_t :: "int \<Rightarrow> nat" where
  "size_t i = nat (i mod 2 ^ 64)"

section \<open>Double precision arithmetic\<close>

text \<open>
  A finite \<^verbatim>\<open>double\<close> is the rational number it denotes. Each operation of the source
  (reading a decimal constant, \<^verbatim>\<open>*\<close>, \<^verbatim>\<open>+\<close>) yields the exact result rounded to the nearest
  binary64 number, ties to the even significand: \<open>round_double\<close> rounds to 53 significant
  bits above \<open>2 ^ -1022\<close> and to multiples of \<open>2 ^ -1074\<close> below. Results beyond the
  largest finite double do not arise from 8-bit channels and are not modelled.
\<close>

fun bitlen_nat :: "nat \<Rightarrow> nat" where
  "bitlen_nat n = (if n = 0 then 0 else Suc (bitlen_nat (n div 2)))"

declare bitlen_nat.simps [simp del]

definition pow2 :: "int \<Rightarrow> rat" where
  "pow2 e = (if 0 \<le> e then 2 ^ nat e else 1 / 2 ^ nat (- e))"

text \<open>For \<open>0 < x\<close>, \<open>ilog2 x\<close> is the exponent \<open>e\<close> with \<open>2 ^ e \<le> x < 2 ^ (e + 1)\<close>.\<close>

definition ilog2 :: "rat \<Rightarrow> int" where
  "ilog2 x = (if 1 \<le> x then int (bitlen_nat (nat \<lfloor>x\<rfloor>)) - 1
              else - int (bitlen_nat (nat (\<lceil>1 / x\<rceil> - 1))))"

definition rne :: "rat \<Rightarrow> int" where
  "rne q = (let f = \<lfloor>q\<rfloor>; d = q - of_int f in
            if d < 1 / 2 then f
            else if 1 / 2 < d then f + 1
            else if even f then f else f + 1)"

definition round_double :: "rat \<Rightarrow> rat" where
  "round_double x =
     (if x = 0 then 0
      else let ulp = pow2 (max (ilog2 \<bar>x\<bar>) (- 1022) - 52)
           in of_int (rne (x / ulp)) * ulp)"

definition fmul :: "rat \<Rightarrow> rat \<Rightarrow> rat" where
  "fmul a b = round_double (a * b)"

definition fadd :: "rat \<Rightarrow> rat \<Rightarrow> rat" where
  "fadd a b = round_double (a + b)"

text \<open>The conversion of a \<^verbatim>\<open>double\<close> to an integer type discards the fraction.\<close>

definition trunc_int :: "rat \<Rightarrow> int" where
  "trunc_int q = (if 0 \<le> q then \<lfloor>q\<rfloor> else \<lceil>q\<rceil>)"

text \<open>
  Line 131: \<^verbatim>\<open>(uint8_t)(0.299 * r + 0.587 * g + 0.114 * b)\<close>. The channels are converted
  to \<^verbatim>\<open>double\<close> exactly; the sum associates to the left.
\<close>

definition lum_sum :: "byte \<Rightarrow> byte \<Rightarrow> byte \<Rightarrow> rat" where
  "lum_sum r g b =
     fadd (fadd (fmul (round_double (299 / 1000)) (of_nat (unat r)))
                (fmul (round_double (587 / 1000)) (of_nat (unat g))))
          (fmul (round_double (114 / 1000)) (of_nat (unat b)))"

definition luminance :: "byte \<Rightarrow> byte \<Rightarrow> byte \<Rightarrow> byte" where
  "luminance r g b = word_of_int (trunc_int (lum_sum r g b))"

section \<open>Files, memory and diagnostics\<close>

text \<open>Every \<^verbatim>\<open>fprintf(stderr, ...)\<close> of the source is one constructor, with its arguments.\<close>

datatype diag =
    CannotOpen string
  | CouldNotReadFileHeader string
  | MagicMismatch string
  | CouldNotReadInfoHeader string
  | Not24Bit string nat
  | CompressedNotSupported string
  | CouldNotAllocateImage
  | CouldNotAllocateRow
  | CouldNotReadRow string
  | Usage "string option"
  | FailedToLoad string
  | QuircAllocFailed
  | QuircResizeFailed
  | QuircBeginFailed
  | QuircCountFailed

text \<open>Every \<^verbatim>\<open>printf\<close> of the source.\<close>

datatype report =
    NoCodesFound
  | FoundCodes int
  | Payload int string
  | DecodeFailed int string

text \<open>
  A heap block holds one cell per byte, \<open>None\<close> while the byte has never been written
  (\<^verbatim>\<open>malloc\<close> does not initialise). A freed block has no contents any more.
\<close>

datatype block = Live "byte option list" | Freed

datatype ptr = NULL | Ptr nat

text \<open>
  The world outside the function: the files that can be opened for reading, the
  allocator's answer (whether the request for \<open>n\<close> bytes succeeds when \<open>k\<close> blocks have
  been handed out before), the heap, the number of open streams and both output streams.
\<close>

record world =
  files :: "string \<Rightarrow> byte list option"
  malloc_ok :: "nat \<Rightarrow> nat \<Rightarrow> bool"
  heap :: "block list"
  open_handles :: nat
  stderr :: "diag list"
  stdout :: "report list"

record stream =
  data :: "byte list"
  pos :: nat

definition eprint :: "diag \<Rightarrow> world \<Rightarrow> world" where
  "eprint d w = w\<lparr>stderr := stderr w @ [d]\<rparr>"

definition print :: "report \<Rightarrow> world \<Rightarrow> world" where
  "print r w = w\<lparr>stdout := stdout w @ [r]\<rparr>"

definition fopen :: "string \<Rightarrow> world \<Rightarrow> stream option \<times> world" where
  "fopen name w =
     (case files w name of
        None \<Rightarrow> (None, w)
      | Some d \<Rightarrow> (Some \<lparr>data = d, pos = 0\<rparr>, w\<lparr>open_handles := Suc (open_handles w)\<rparr>))"

definition fclose :: "world \<Rightarrow> world" where
  "fclose w = w\<lparr>open_handles := open_handles w - 1\<rparr>"

text \<open>
  \<^verbatim>\<open>fread(buf, size, nmemb, f)\<close> transfers the bytes that are left, at most
  \<open>size * nmemb\<close>, and returns the number of complete items.
\<close>

definition fread :: "nat \<Rightarrow> nat \<Rightarrow> stream \<Rightarrow> byte list \<times> nat \<times> stream" where
  "fread sz nmemb f =
     (let bs = take (sz * nmemb) (drop (pos f) (data f))
      in (bs, if sz = 0 then 0 else length bs div sz, f\<lparr>pos := pos f + length bs\<rparr>))"

text \<open>\<^verbatim>\<open>fseek(f, offset, SEEK_SET)\<close> with an offset that is not negative; the result is not checked.\<close>

definition fseek :: "nat \<Rightarrow> stream \<Rightarrow> stream" where
  "fseek off f = f\<lparr>pos := off\<rparr>"

definition malloc :: "nat \<Rightarrow> world \<Rightarrow> ptr \<times> world" where
  "malloc n w =
     (if malloc_ok w (length (heap w)) n
      then (Ptr (length (heap w)), w\<lparr>heap := heap w @ [Live (replicate n None)]\<rparr>)
      else (NULL, w))"

definition free :: "ptr \<Rightarrow> world \<Rightarrow> world" where
  "free p w = (case p of NULL \<Rightarrow> w | Ptr a \<Rightarrow> w\<lparr>heap := (heap w)[a := Freed]\<rparr>)"

definition store_block :: "ptr \<Rightarrow> byte option list \<Rightarrow> world \<Rightarrow> world" where
  "store_block p cs w = (case p of NULL \<Rightarrow> w | Ptr a \<Rightarrow> w\<lparr>heap := (heap w)[a := Live cs]\<rparr>)"

section \<open>The BMP headers\<close>

text \<open>
  Both headers are packed structs filled by \<^verbatim>\<open>fread\<close> on a little-endian host, so a field
  is the little-endian value of its bytes.
\<close>

definition le16 :: "byte list \<Rightarrow> nat \<Rightarrow> nat" where
  "le16 bs i = unat (bs ! i) + 256 * unat (bs ! (i + 1))"

definition le32 :: "byte list \<Rightarrow> nat \<Rightarrow> nat" where
  "le32 bs i = unat (bs ! i) + 256 * unat (bs ! (i + 1))
             + 65536 * unat (bs ! (i + 2)) + 16777216 * unat (bs ! (i + 3))"

definition s32 :: "nat \<Rightarrow> int" where
  "s32 u = wrap32 (int u)"

record BMPFileHeader =
  type :: nat
  file_size :: nat
  reserved1 :: nat
  reserved2 :: nat
  offset :: nat

record BMPInfoHeader =
  headerSize :: nat
  width :: int
  height :: int
  planes :: nat
  bitDepth :: nat
  compression :: nat
  imageSize :: nat
  xResolution :: int
  yResolution :: int
  numColors :: nat
  importantColors :: nat

definition read_file_header :: "byte list \<Rightarrow> BMPFileHeader" where
  "read_file_header bs =
     \<lparr>type = le16 bs 0, file_size = le32 bs 2, reserved1 = le16 bs 6,
      reserved2 = le16 bs 8, offset = le32 bs 10\<rparr>"

definition read_info_header :: "byte list \<Rightarrow> BMPInfoHeader" where
  "read_info_header bs =
     \<lparr>headerSize = le32 bs 0, width = s32 (le32 bs 4), height = s32 (le32 bs 8),
      planes = le16 bs 12, bitDepth = le16 bs 14, compression = le32 bs 16,
      imageSize = le32 bs 20, xResolution = s32 (le32 bs 24),
      yResolution = s32 (le32 bs 28), numColors = le32 bs 32,
      importantColors = le32 bs 36\<rparr>"

section \<open>The loader\<close>

text \<open>
  A read or a write through a pointer is defined inside the block only. Outside, the
  program has no defined behaviour, which is the result \<open>None\<close> of the two row loops and
  \<open>Undefined\<close> of the functions that call them.
\<close>

datatype 'a outcome = Returns 'a | Undefined

definition load_cell :: "byte list \<Rightarrow> int \<Rightarrow> byte option" where
  "load_cell buf i = (if 0 \<le> i \<and> i < int (length buf) then Some (buf ! nat i) else None)"

definition store_cell :: "byte option list \<Rightarrow> int \<Rightarrow> byte \<Rightarrow> byte option list option" where
  "store_cell m i v = (if 0 \<le> i \<and> i < int (length m) then Some (m[nat i := Some v]) else None)"

text \<open>Lines 127 to 129: the three channel bytes of column \<open>x\<close>, in the order B, G, R.\<close>

definition load_pixel :: "byte list \<Rightarrow> int \<Rightarrow> (byte \<times> byte \<times> byte) option" where
  "load_pixel bgr x =
     (case load_cell bgr (wrap32 (x * 3 + 0)) of
        None \<Rightarrow> None
      | Some b \<Rightarrow>
         (case load_cell bgr (wrap32 (x * 3 + 1)) of
            None \<Rightarrow> None
          | Some g \<Rightarrow>
             (case load_cell bgr (wrap32 (x * 3 + 2)) of
                None \<Rightarrow> None
              | Some r \<Rightarrow> Some (b, g, r))))"

text \<open>
  Lines 126 to 132, the loop over the columns. \<open>base\<close> is the offset of
  \<^verbatim>\<open>grayscale_row_ptr\<close> from \<^verbatim>\<open>*image_data\<close>; the sum \<open>base + x\<close> is pointer arithmetic and
  does not wrap. \<open>x\<close> stays below \<open>W\<close>, so \<open>x + 1\<close> does not overflow.
\<close>

function convert_row :: "byte list \<Rightarrow> int \<Rightarrow> int \<Rightarrow> int \<Rightarrow> byte option list \<Rightarrow> byte option list option" where
  "convert_row bgr base W x plane =
     (if x < W then
        (case load_pixel bgr x of
           None \<Rightarrow> None
         | Some (b, g, r) \<Rightarrow>
            (case store_cell plane (base + x) (luminance r g b) of
               None \<Rightarrow> None
             | Some plane' \<Rightarrow> convert_row bgr base W (x + 1) plane'))
      else Some plane)"
  by pat_completeness auto

termination
  by (relation "measure (\<lambda>(bgr, base, W, x, plane). nat (W - x))") auto

declare convert_row.simps [simp del]

datatype rows_result = RowsDone "byte option list" | ShortRead | OutOfBounds

text \<open>
  Lines 110 to 133, the loop over the rows. The scratch buffer has \<open>row_size\<close> bytes,
  and after a complete \<^verbatim>\<open>fread\<close> it holds exactly the bytes read. Inside the loop
  \<open>0 \<le> y < H\<close>, so only the product of line 124 can leave the range of \<^verbatim>\<open>int\<close>.
\<close>

function read_rows :: "nat \<Rightarrow> int \<Rightarrow> int \<Rightarrow> int \<Rightarrow> stream \<Rightarrow> byte option list \<Rightarrow> rows_result" where
  "read_rows row_size W H y file plane =
     (if y < H then
        (let (bgr, n, file') = fread 1 row_size file in
         if n \<noteq> row_size then ShortRead
         else (case convert_row bgr (wrap32 ((H - 1 - y) * W)) W 0 plane of
                 None \<Rightarrow> OutOfBounds
               | Some plane' \<Rightarrow> read_rows row_size W H (y + 1) file' plane'))
      else RowsDone plane)"
  by pat_completeness auto

termination
  by (relation "measure (\<lambda>(row_size, W, H, y, file, plane). nat (H - y))") auto

declare read_rows.simps [simp del]

text \<open>
  The variables of the caller that \<^verbatim>\<open>load_bmp\<close> writes through its pointer arguments;
  \<open>None\<close> is an \<^verbatim>\<open>int\<close> that has not been assigned yet.
\<close>

record outs =
  width_out :: "int option"
  height_out :: "int option"
  image_data_out :: ptr

definition load_bmp :: "string \<Rightarrow> outs \<Rightarrow> world \<Rightarrow> (int \<times> outs \<times> world) outcome" where
  "load_bmp filename vars w0 =
     (case fopen filename w0 of
        (None, w) \<Rightarrow> Returns (- 1, vars, eprint (CannotOpen filename) w)
      | (Some file, w) \<Rightarrow>
     let (fh_bytes, n, file) = fread 14 1 file in
     if n \<noteq> 1 then Returns (- 1, vars, fclose (eprint (CouldNotReadFileHeader filename) w))
     else
     let fileHeader = read_file_header fh_bytes in
     if type fileHeader \<noteq> 0x4D42
     then Returns (- 1, vars, fclose (eprint (MagicMismatch filename) w))
     else
     let (ih_bytes, n, file) = fread 40 1 file in
     if n \<noteq> 1 then Returns (- 1, vars, fclose (eprint (CouldNotReadInfoHeader filename) w))
     else
     let infoHeader = read_info_header ih_bytes in
     if bitDepth infoHeader \<noteq> 24
     then Returns (- 1, vars, fclose (eprint (Not24Bit filename (bitDepth infoHeader)) w))
     else if compression infoHeader \<noteq> 0
     then Returns (- 1, vars, fclose (eprint (CompressedNotSupported filename) w))
     else
     let W = width infoHeader;
         H = (if 0 < height infoHeader then height infoHeader else wrap32 (- height infoHeader));
         vars = vars\<lparr>width_out := Some W, height_out := Some H\<rparr>;
         row_padded = wrap32 (W * 3 + 3) AND NOT 3;
         (p, w) = malloc (size_t (wrap32 (W * H))) w;
         vars = vars\<lparr>image_data_out := p\<rparr>
     in
     if p = NULL then Returns (- 1, vars, fclose (eprint CouldNotAllocateImage w))
     else
     let file = fseek (offset fileHeader) file;
         (bgr_row_buffer, w) = malloc (size_t row_padded) w
     in
     if bgr_row_buffer = NULL
     then Returns (- 1, vars, fclose (free p (eprint CouldNotAllocateRow w)))
     else
       (case read_rows (size_t row_padded) W H 0 file (replicate (size_t (wrap32 (W * H))) None) of
          ShortRead \<Rightarrow>
            Returns (- 1, vars, fclose (free p (free bgr_row_buffer (eprint (CouldNotReadRow filename) w))))
        | OutOfBounds \<Rightarrow> Undefined
        | RowsDone plane \<Rightarrow>
            Returns (0, vars, fclose (free bgr_row_buffer (store_block p plane w)))))"

section \<open>The driver\<close>

text \<open>
  The quirc library is not among the sources at hand, so what its calls answer is a
  parameter: whether \<^verbatim>\<open>quirc_new\<close>, \<^verbatim>\<open>quirc_resize\<close> and \<^verbatim>\<open>quirc_begin\<close> succeed, the
  number of codes \<^verbatim>\<open>quirc_count\<close> reports for an image, and for each code the payload
  (\<open>Inr\<close>) or the text of the decoding error (\<open>Inl\<close>).
\<close>

record quirc_lib =
  quirc_new_ok :: bool
  quirc_resize_ok :: "int \<Rightarrow> int \<Rightarrow> bool"
  quirc_begin_ok :: bool
  quirc_count :: "int \<Rightarrow> int \<Rightarrow> byte option list \<Rightarrow> int"
  quirc_decode :: "int \<Rightarrow> int \<Rightarrow> byte option list \<Rightarrow> int \<Rightarrow> string + string"

definition block_cells :: "ptr \<Rightarrow> world \<Rightarrow> byte option list option" where
  "block_cells p w =
     (case p of
        NULL \<Rightarrow> None
      | Ptr a \<Rightarrow> (if a < length (heap w) then
                    (case heap w ! a of Live cs \<Rightarrow> Some cs | Freed \<Rightarrow> None)
                  else None))"

definition report_code :: "quirc_lib \<Rightarrow> int \<Rightarrow> int \<Rightarrow> byte option list \<Rightarrow> world \<Rightarrow> nat \<Rightarrow> world" where
  "report_code q W H img w i =
     (case quirc_decode q W H img (int i) of
        Inr payload \<Rightarrow> print (Payload (int i + 1) payload) w
      | Inl err \<Rightarrow> print (DecodeFailed (int i + 1) err) w)"

text \<open>
  \<^verbatim>\<open>main\<close>, with \<open>argv\<close> the argument vector (\<open>argc\<close> is its length). The \<^verbatim>\<open>memcpy\<close> of
  line 180 reads \<^verbatim>\<open>(size_t)width * height\<close> bytes of the plane.
\<close>

definition main :: "quirc_lib \<Rightarrow> string list \<Rightarrow> world \<Rightarrow> (int \<times> world) outcome" where
  "main q argv w0 =
     (if int (length argv) < 2
      then Returns (1, eprint (Usage (if argv = [] then None else Some (argv ! 0))) w0)
      else
        (case load_bmp (argv ! 1) \<lparr>width_out = None, height_out = None, image_data_out = NULL\<rparr> w0 of
           Undefined \<Rightarrow> Undefined
         | Returns (r, vars, w) \<Rightarrow>
             if r \<noteq> 0 then Returns (1, eprint (FailedToLoad (argv ! 1)) w)
             else
               (case (width_out vars, height_out vars, block_cells (image_data_out vars) w) of
                  (Some W, Some H, Some plane) \<Rightarrow>
                    if \<not> quirc_new_ok q
                    then Returns (1, free (image_data_out vars) (eprint QuircAllocFailed w))
                    else if \<not> quirc_resize_ok q W H
                    then Returns (1, free (image_data_out vars) (eprint QuircResizeFailed w))
                    else if \<not> quirc_begin_ok q
                    then Returns (1, free (image_data_out vars) (eprint QuircBeginFailed w))
                    else
                      let n = (size_t W * size_t H) mod 2 ^ 64 in
                      if length plane < n then Undefined
                      else
                        let img = take n plane; count = quirc_count q W H img in
                        if count < 0
                        then Returns (1, free (image_data_out vars) (eprint QuircCountFailed w))
                        else if count = 0
                        then Returns (0, free (image_data_out vars) (print NoCodesFound w))
                        else Returns (0, free (image_data_out vars)
                               (foldl (report_code q W H img) (print (FoundCodes count) w)
                                  [0 ..< nat count]))
                | _ \<Rightarrow> Undefined)))"

section \<open>The fields of a BMP file\<close>

text \<open>
  The header fields at their offsets in the file (14 bytes of file header, then the info
  header), and the three quantities \<^verbatim>\<open>load_bmp\<close> derives from them: the value stored in
  \<^verbatim>\<open>*height\<close>, the value of \<^verbatim>\<open>row_padded\<close> as a \<^verbatim>\<open>size_t\<close>, and the size requested for
  the luminance plane.
\<close>

definition bmp_magic :: "byte list \<Rightarrow> nat" where
  "bmp_magic d = le16 d 0"

definition bmp_offset :: "byte list \<Rightarrow> nat" where
  "bmp_offset d = le32 d 10"

definition bmp_width :: "byte list \<Rightarrow> int" where
  "bmp_width d = s32 (le32 d 18)"

definition bmp_height :: "byte list \<Rightarrow> int" where
  "bmp_height d = s32 (le32 d 22)"

definition bmp_depth :: "byte list \<Rightarrow> nat" where
  "bmp_depth d = le16 d 28"

definition bmp_compression :: "byte list \<Rightarrow> nat" where
  "bmp_compression d = le32 d 30"

definition bmp_rows :: "byte list \<Rightarrow> int" where
  "bmp_rows d = (if 0 < bmp_height d then bmp_height d else wrap32 (- bmp_height d))"

definition bmp_stride :: "byte list \<Rightarrow> nat" where
  "bmp_stride d = size_t (wrap32 (bmp_width d * 3 + 3) AND NOT 3)"

definition bmp_plane_size :: "byte list \<Rightarrow> nat" where
  "bmp_plane_size d = size_t (wrap32 (bmp_width d * bmp_rows d))"

section \<open>Notions used in the statements\<close>

text \<open>
  The luminance of pixel \<open>c\<close> of the stored row \<open>r\<close>, for a pixel region that starts at
  offset \<open>P\<close> of the file \<open>d\<close> and has rows of \<open>n\<close> bytes: the bytes at \<open>3 * c\<close>,
  \<open>3 * c + 1\<close> and \<open>3 * c + 2\<close> of the row are blue, green and red.
\<close>

definition stored_luminance :: "byte list \<Rightarrow> nat \<Rightarrow> nat \<Rightarrow> nat \<Rightarrow> nat \<Rightarrow> byte" where
  "stored_luminance d P n r c =
     luminance (d ! (P + r * n + 3 * c + 2)) (d ! (P + r * n + 3 * c + 1)) (d ! (P + r * n + 3 * c))"

definition pixel_luminance :: "byte list \<Rightarrow> nat \<Rightarrow> nat \<Rightarrow> byte" where
  "pixel_luminance d y x = stored_luminance d (bmp_offset d) (bmp_stride d) y x"

text \<open>
  The blocks of the heap that have not been freed.
\<close>

definition live_blocks :: "world \<Rightarrow> block list" where
  "live_blocks w = filter (\<lambda>b. b \<noteq> Freed) (heap w)"

text \<open>
  The three checks of the header fields, and the checks of \<^verbatim>\<open>load_bmp\<close> altogether, stated
  on the input: the file opens, holds the 14 bytes of the file header, has the magic
  \<open>0x4D42\<close>, holds the 40 bytes of the info header, has depth 24 and compression 0, both
  allocations are granted, and the file holds every row from the pixel offset on (rows of
  no bytes are always there).
\<close>

definition headers_valid :: "byte list \<Rightarrow> bool" where
  "headers_valid d = (bmp_magic d = 0x4D42 \<and> bmp_depth d = 24 \<and> bmp_compression d = 0)"

definition rows_available :: "byte list \<Rightarrow> bool" where
  "rows_available d =
     (0 < bmp_rows d \<and> 0 < bmp_stride d \<longrightarrow>
        bmp_offset d + nat (bmp_rows d) * bmp_stride d \<le> length d)"

definition checks_pass :: "string \<Rightarrow> world \<Rightarrow> bool" where
  "checks_pass name w =
     (case files w name of
        None \<Rightarrow> False
      | Some d \<Rightarrow>
          14 \<le> length d \<and> bmp_magic d = 0x4D42 \<and> 54 \<le> length d \<and>
          bmp_depth d = 24 \<and> bmp_compression d = 0 \<and>
          malloc_ok w (length (heap w)) (bmp_plane_size d) \<and>
          malloc_ok w (Suc (length (heap w))) (bmp_stride d) \<and>
          rows_available d)"

text \<open>
  The dimensions for which the arithmetic of the two loops stays within \<^verbatim>\<open>int\<close>: when
  there is a pixel to convert, \<open>3 * W + 3\<close> and \<open>W * H\<close> are below \<open>2 ^ 31\<close>.
\<close>

definition dimensions_in_range :: "byte list \<Rightarrow> bool" where
  "dimensions_in_range d =
     (0 < bmp_width d \<and> 0 < bmp_rows d \<longrightarrow>
        3 * bmp_width d + 3 < 2 ^ 31 \<and> bmp_width d * bmp_rows d < 2 ^ 31)"

text \<open>
  A padding byte lies after the headers, in one of the rows of the pixel region, at an
  offset of at least \<open>3 * W\<close> within its row. Two files are the same but for padding when
  they have the same length and differ at padding bytes only.
\<close>

definition is_padding :: "byte list \<Rightarrow> nat \<Rightarrow> bool" where
  "is_padding d i =
     (54 \<le> i \<and> bmp_offset d \<le> i \<and> 0 < bmp_stride d \<and>
      (i - bmp_offset d) div bmp_stride d < nat (bmp_rows d) \<and>
      nat (3 * bmp_width d) \<le> (i - bmp_offset d) mod bmp_stride d)"

definition same_but_padding :: "byte list \<Rightarrow> byte list \<Rightarrow> bool" where
  "same_but_padding d d' =
     (length d' = length d \<and> (\<forall>i<length d. d' ! i \<noteq> d ! i \<longrightarrow> is_padding d i))"

section \<open>Sample inputs\<close>

text \<open>
  A 54-byte header with the given width and height fields, magic \<open>BM\<close>, pixel offset 54,
  one plane, 24 bits per pixel and no compression.
\<close>

definition bmp_header :: "byte list \<Rightarrow> byte list \<Rightarrow> byte list" where
  "bmp_header wd ht =
     [0x42, 0x4D, 0, 0, 0, 0, 0, 0, 0, 0, 54, 0, 0, 0,
      40, 0, 0, 0] @ wd @ ht @ [1, 0, 24, 0, 0, 0, 0, 0,
      0, 0, 0, 0, 0, 0, 0, 0, 0, 0, 0, 0, 0, 0, 0, 0, 0, 0, 0, 0]"

text \<open>
  The 2 by 2 bottom-up checkerboard: stored row 0 is black, white; stored row 1 is white, black.
\<close>

definition checkerboard_bmp :: "byte list" where
  "checkerboard_bmp = bmp_header [2, 0, 0, 0] [2, 0, 0, 0] @
     [0, 0, 0, 255, 255, 255, 0, 0,
      255, 255, 255, 0, 0, 0, 0, 0]"

text \<open>
  The same picture stored top-down: the height field is \<open>-2\<close> and the top row
  (white, black) comes first in the file.
\<close>

definition topdown_checkerboard_bmp :: "byte list" where
  "topdown_checkerboard_bmp = bmp_header [2, 0, 0, 0] [0xFE, 0xFF, 0xFF, 0xFF] @
     [255, 255, 255, 0, 0, 0, 0, 0,
      0, 0, 0, 255, 255, 255, 0, 0]"

text \<open>
  The checkerboard with other values in the two padding bytes of each row.
\<close>

definition repadded_checkerboard_bmp :: "byte list" where
  "repadded_checkerboard_bmp = checkerboard_bmp[60 := 0xAA, 61 := 0xBB, 68 := 0xCC, 69 := 0xDD]"

text \<open>
  The checkerboard with \<open>X\<close> for \<open>B\<close> in the magic, and with a depth field of 8.
\<close>

definition bad_magic_bmp :: "byte list" where
  "bad_magic_bmp = checkerboard_bmp[0 := 0x58]"

definition depth8_bmp :: "byte list" where
  "depth8_bmp = checkerboard_bmp[28 := 8]"

text \<open>
  Header-only files: height 0, width 0, and 65536 by 65536.
\<close>

definition zero_height_bmp :: "byte list" where
  "zero_height_bmp = bmp_header [1, 0, 0, 0] [0, 0, 0, 0]"

definition zero_width_bmp :: "byte list" where
  "zero_width_bmp = bmp_header [0, 0, 0, 0] [1, 0, 0, 0]"

definition huge_bmp :: "byte list" where
  "huge_bmp = bmp_header [0, 0, 1, 0] [0, 0, 1, 0]"

text \<open>
  A file of width 1 and height 2 that ends after its first row.
\<close>

definition truncated_bmp :: "byte list" where
  "truncated_bmp = bmp_header [1, 0, 0, 0] [2, 0, 0, 0] @ [255, 255, 255, 0]"

text \<open>
  A file of width 4 and height \<open>2 ^ 30\<close> that holds one row of 12 bytes: the product of
  its dimensions is \<open>2 ^ 32\<close>, which is 0 in 32 bits.
\<close>

definition overflow_bmp :: "byte list" where
  "overflow_bmp = bmp_header [4, 0, 0, 0] [0, 0, 0, 0x40] @
     [0, 0, 0, 0, 0, 0, 0, 0, 0, 0, 0, 0]"

text \<open>
  A world with one readable file, an allocator that never refuses, and nothing else.
\<close>

definition one_file_world :: "string \<Rightarrow> byte list \<Rightarrow> world" where
  "one_file_world name d =
     \<lparr>files = (\<lambda>n. if n = name then Some d else None), malloc_ok = (\<lambda>k n. True),
      heap = [], open_handles = 0, stderr = [], stdout = []\<rparr>"

text \<open>
  The variables of \<^verbatim>\<open>main\<close> before the call (lines 149 and 150).
\<close>

definition vars0 :: outs where
  "vars0 = \<lparr>width_out = None, height_out = None, image_data_out = NULL\<rparr>"

text \<open>
  A recognizer that always succeeds and finds no code.
\<close>

definition no_codes_quirc :: quirc_lib where
  "no_codes_quirc =
     \<lparr>quirc_new_ok = True, quirc_resize_ok = (\<lambda>w h. True), quirc_begin_ok = True,
      quirc_count = (\<lambda>w h img. 0), quirc_decode = (\<lambda>w h img i. Inl [])\<rparr>"

section \<open>Properties of the arithmetic\<close>

lemma wrap32_range: "- (2 ^ 31) \<le> wrap32 i" "wrap32 i < 2 ^ 31"
  by (simp_all add: wrap32_def)

lemma wrap32_id: "- (2 ^ 31) \<le> i \<Longrightarrow> i < 2 ^ 31 \<Longrightarrow> wrap32 i = i"
  by (simp add: wrap32_def)

lemma wrap32_high: "2 ^ 31 \<le> v \<Longrightarrow> v < 2 ^ 32 \<Longrightarrow> wrap32 v = v - 2 ^ 32"
proof -
  assume a: "2 ^ 31 \<le> v" "v < 2 ^ 32"
  have "(v + 2 ^ 31) mod 2 ^ 32 = (v - 2 ^ 31 + 2 ^ 32) mod 2 ^ 32" by (simp add: add.commute)
  also have "\<dots> = (v - 2 ^ 31) mod 2 ^ 32" by (rule mod_add_self2)
  also have "\<dots> = v - 2 ^ 31" using a by (intro mod_pos_pos_trivial) simp_all
  finally show ?thesis by (simp add: wrap32_def)
qed

lemma wrap32_mod: "wrap32 i mod 2 ^ 32 = i mod 2 ^ 32"
proof -
  have "wrap32 i = (i + 2 ^ 31) mod 2 ^ 32 - 2 ^ 31" by (simp add: wrap32_def)
  then have "wrap32 i mod 2 ^ 32 = ((i + 2 ^ 31) mod 2 ^ 32 - 2 ^ 31) mod 2 ^ 32" by simp
  also have "\<dots> = (i + 2 ^ 31 - 2 ^ 31) mod 2 ^ 32" by (rule mod_diff_left_eq)
  finally show ?thesis by simp
qed

lemma size_t_id: "0 \<le> i \<Longrightarrow> i < 2 ^ 64 \<Longrightarrow> size_t i = nat i"
  by (simp add: size_t_def)

lemma size_t_neg: "i < 0 \<Longrightarrow> - (2 ^ 31) \<le> i \<Longrightarrow> int (size_t i) = 2 ^ 64 + i"
proof -
  assume a: "i < 0" "- (2 ^ 31) \<le> i"
  have "i mod 2 ^ 64 = (i + 2 ^ 64) mod 2 ^ 64" by simp
  also have "\<dots> = i + 2 ^ 64" using a by (intro mod_pos_pos_trivial) simp_all
  finally show ?thesis by (simp add: size_t_def)
qed

lemma and_not_3: "(x::int) AND NOT 3 = x - x mod 4"
proof -
  have m: "(3::int) = mask 2" by (simp add: mask_eq_exp_minus_1)
  have "x AND NOT (mask 2) = push_bit 2 (drop_bit 2 x)"
  proof (rule bit_eqI)
    fix n
    show "bit (x AND NOT (mask 2)) n = bit (push_bit 2 (drop_bit 2 x)) n"
    proof (cases "n < 2")
      case True
      then show ?thesis by (simp add: bit_simps)
    next
      case False
      then obtain m where "n = m + 2" by (metis add.commute le_Suc_ex not_less)
      then show ?thesis by (simp add: bit_simps)
    qed
  qed
  moreover have "push_bit 2 (drop_bit 2 x) + take_bit 2 x = x" by (rule bits_ident)
  ultimately have "x AND NOT (mask 2) = x - take_bit 2 x" by simp
  then show ?thesis unfolding m by (simp add: take_bit_eq_mod)
qed

lemma stride_bounds:
  assumes "0 \<le> W" and "3 * W + 3 < 2 ^ 31"
  shows "nat (3 * W) \<le> size_t (wrap32 (W * 3 + 3) AND NOT 3)"
proof -
  have w: "wrap32 (W * 3 + 3) = 3 * W + 3" using assms by (simp add: wrap32_id)
  let ?s = "3 * W + 3 - (3 * W + 3) mod 4"
  have "(3 * W + 3) mod 4 \<le> 3" by simp
  then have lo: "3 * W \<le> ?s" by simp
  have hi: "?s < 2 ^ 64" using assms by simp
  have s: "size_t (wrap32 (W * 3 + 3) AND NOT 3) = nat ?s"
    unfolding w and_not_3 using lo hi assms(1) by (intro size_t_id) simp_all
  show ?thesis unfolding s using lo by simp
qed

lemma product_bound:
  assumes "- (2 ^ 31) \<le> (a::int)" "a < 2 ^ 31" "- (2 ^ 31) \<le> (b::int)" "b < 2 ^ 31"
  shows "a * b \<le> 2 ^ 62"
proof -
  have "a * b \<le> \<bar>a * b\<bar>" by simp
  also have "\<dots> = \<bar>a\<bar> * \<bar>b\<bar>" by (simp add: abs_mult)
  also have "\<dots> \<le> 2 ^ 31 * 2 ^ 31"
    using assms by (intro mult_mono) auto
  finally show ?thesis by simp
qed

lemma plane_request_fits:
  "0 \<le> p \<Longrightarrow> p \<le> 2 ^ 31 - 1 \<Longrightarrow> size_t (wrap32 p) = nat p"
  by (simp add: wrap32_id size_t_id)

lemma plane_request_wraps:
  assumes "2 ^ 31 - 1 < p" "p \<le> 2 ^ 62"
  shows "size_t (wrap32 p) \<noteq> nat p"
proof (cases "0 \<le> wrap32 p")
  case True
  then have "size_t (wrap32 p) = nat (wrap32 p)"
    using wrap32_range(2) [of p] by (simp add: size_t_id)
  moreover have "wrap32 p < p" using wrap32_range(2) [of p] assms by simp
  ultimately show ?thesis using True by simp
next
  case False
  then have "int (size_t (wrap32 p)) = 2 ^ 64 + wrap32 p"
    using wrap32_range(1) [of p] by (simp add: size_t_neg)
  then have "int (size_t (wrap32 p)) \<ge> 2 ^ 64 - 2 ^ 31"
    using wrap32_range(1) [of p] by simp
  then have "int (size_t (wrap32 p)) > p" using assms by simp
  then show ?thesis using assms by auto
qed

lemma plane_request_mod: "int (size_t (wrap32 p)) mod 2 ^ 32 = p mod 2 ^ 32"
proof -
  have "int (size_t (wrap32 p)) = wrap32 p mod 2 ^ 64" by (simp add: size_t_def)
  then have "int (size_t (wrap32 p)) mod 2 ^ 32 = wrap32 p mod 2 ^ 64 mod 2 ^ 32" by simp
  also have "\<dots> = wrap32 p mod 2 ^ 32"
    by (rule mod_mod_cancel) simp
  finally show ?thesis using wrap32_mod [of p] by simp
qed

section \<open>Properties of the double precision model\<close>

lemma rne_cases:
  "rne q = \<lfloor>q\<rfloor> \<or> (rne q = \<lfloor>q\<rfloor> + 1 \<and> 1 / 2 \<le> q - of_int \<lfloor>q\<rfloor>)"
proof (cases "q - of_int \<lfloor>q\<rfloor> < 1 / 2")
  case True
  then have "rne q = \<lfloor>q\<rfloor>" unfolding rne_def Let_def by (simp only: if_True)
  then show ?thesis ..
next
  case False
  then have h: "1 / 2 \<le> q - of_int \<lfloor>q\<rfloor>" by (simp only: not_less)
  have "rne q = \<lfloor>q\<rfloor> \<or> rne q = \<lfloor>q\<rfloor> + 1"
    unfolding rne_def Let_def by auto
  with h show ?thesis by blast
qed

lemma rne_nonneg: "0 \<le> q \<Longrightarrow> 0 \<le> rne q"
  using rne_cases [of q] by (auto simp: zero_le_floor)

lemma rne_upper: "of_int (rne q) \<le> q + 1 / 2"
proof -
  from rne_cases [of q] show ?thesis
  proof
    assume "rne q = \<lfloor>q\<rfloor>"
    then show ?thesis using of_int_floor_le [of q] by simp linarith
  next
    assume a: "rne q = \<lfloor>q\<rfloor> + 1 \<and> 1 / 2 \<le> q - of_int \<lfloor>q\<rfloor>"
    then have "(of_int (rne q) :: rat) = of_int \<lfloor>q\<rfloor> + 1" by simp
    with a show ?thesis by linarith
  qed
qed

lemma pow2_powi: "pow2 e = 2 powi e"
  by (simp add: pow2_def power_int_def field_simps)

lemma pow2_pos: "0 < pow2 e"
  by (simp add: pow2_powi)

lemma pow2_diff: "pow2 (e - k) = pow2 e / pow2 k"
  by (simp add: pow2_powi power_int_diff)

lemma pow2_mono: "a \<le> b \<Longrightarrow> pow2 a \<le> pow2 b"
  by (simp add: pow2_powi power_int_increasing)

lemma pow2_nat: "pow2 (int k) = 2 ^ k"
  by (simp add: pow2_def)

lemma pow2_neg_nat: "pow2 (- int k) = 1 / 2 ^ k"
  by (auto simp: pow2_def)

lemma bitlen_nat_pos: "0 < n \<Longrightarrow> 0 < bitlen_nat n"
  by (simp add: bitlen_nat.simps [of n])

lemma bitlen_nat_lower: "0 < n \<Longrightarrow> 2 ^ (bitlen_nat n - 1) \<le> n"
proof (induction n rule: bitlen_nat.induct)
  case (1 n)
  show ?case
  proof (cases "n div 2 = 0")
    case True
    with "1.prems" show ?thesis by (simp add: bitlen_nat.simps [of n] bitlen_nat.simps [of 0])
  next
    case False
    then have "2 ^ (bitlen_nat (n div 2) - 1) \<le> n div 2" using "1.IH" "1.prems" by simp
    moreover have "0 < bitlen_nat (n div 2)" using False by (simp add: bitlen_nat_pos)
    ultimately have "2 ^ bitlen_nat (n div 2) \<le> 2 * (n div 2)"
      by (cases "bitlen_nat (n div 2)") simp_all
    then have "2 ^ bitlen_nat (n div 2) \<le> n" by simp
    then show ?thesis using "1.prems" by (simp add: bitlen_nat.simps [of n])
  qed
qed

lemma bitlen_nat_upper: "n < 2 ^ bitlen_nat n"
proof (induction n rule: bitlen_nat.induct)
  case (1 n)
  show ?case
  proof (cases "n = 0")
    case True
    then show ?thesis by simp
  next
    case False
    then have "n div 2 < 2 ^ bitlen_nat (n div 2)" using "1.IH" by simp
    then have "n < 2 * 2 ^ bitlen_nat (n div 2)" by simp
    then show ?thesis using False by (simp add: bitlen_nat.simps [of n])
  qed
qed

lemma ilog2_lower:
  assumes "0 < x"
  shows "pow2 (ilog2 x) \<le> x"
proof (cases "1 \<le> x")
  case True
  let ?n = "nat \<lfloor>x\<rfloor>"
  from True have n: "0 < ?n" by simp
  have "of_nat (2 ^ (bitlen_nat ?n - 1)) \<le> (of_nat ?n :: rat)"
    using bitlen_nat_lower [OF n] by (rule of_nat_mono)
  also have "(of_nat ?n :: rat) = of_int \<lfloor>x\<rfloor>" using True by simp
  also have "\<dots> \<le> x" by simp
  finally have "(2::rat) ^ (bitlen_nat ?n - 1) \<le> x" by simp
  moreover have "ilog2 x = int (bitlen_nat ?n - 1)"
    using True bitlen_nat_pos [OF n] by (simp add: ilog2_def)
  ultimately show ?thesis by (simp only: pow2_nat)
next
  case False
  let ?m = "nat (\<lceil>1 / x\<rceil> - 1)"
  from False assms have "1 < 1 / x" by simp
  then have c: "1 < \<lceil>1 / x\<rceil>" by simp
  have "int ?m < int (2 ^ bitlen_nat ?m)"
    using bitlen_nat_upper [of ?m] by (simp only: of_nat_less_iff)
  moreover have "int ?m = \<lceil>1 / x\<rceil> - 1" using c assms by simp
  ultimately have "\<lceil>1 / x\<rceil> - 1 < 2 ^ bitlen_nat ?m" by simp
  then have "\<lceil>1 / x\<rceil> \<le> 2 ^ bitlen_nat ?m" by linarith
  then have "1 / x \<le> of_int (2 ^ bitlen_nat ?m)" by (simp only: ceiling_le_iff)
  then have "1 / x \<le> 2 ^ bitlen_nat ?m" by simp
  then have "1 / 2 ^ bitlen_nat ?m \<le> x" using assms
    by (simp add: field_simps)
  moreover have "ilog2 x = - int (bitlen_nat ?m)"
    using False by (simp add: ilog2_def)
  ultimately show ?thesis by (simp only: pow2_neg_nat)
qed

lemma ulp_bound:
  assumes "0 < x"
  shows "pow2 (max (ilog2 x) (- 1022) - 52) \<le> (x + pow2 (- 1022)) / 2 ^ 52"
proof -
  have "pow2 (max (ilog2 x) (- 1022)) \<le> x + pow2 (- 1022)"
  proof (cases "ilog2 x \<le> - 1022")
    case True
    then have "max (ilog2 x) (- 1022) = - 1022" by simp
    then show ?thesis using assms by simp
  next
    case False
    then have "max (ilog2 x) (- 1022) = ilog2 x" by simp
    then show ?thesis using ilog2_lower [OF assms] pow2_pos [of "- 1022"] by simp
  qed
  moreover have "pow2 52 = 2 ^ 52" using pow2_nat [of 52] by simp
  ultimately show ?thesis
    by (simp add: pow2_diff divide_right_mono)
qed

lemma round_double_nonneg: "0 \<le> x \<Longrightarrow> 0 \<le> round_double x"
proof -
  assume x: "0 \<le> x"
  show ?thesis
  proof (cases "x = 0")
    case True
    then show ?thesis by (simp add: round_double_def)
  next
    case False
    let ?ulp = "pow2 (max (ilog2 \<bar>x\<bar>) (- 1022) - 52)"
    have "0 \<le> x / ?ulp" using x pow2_pos [of "max (ilog2 \<bar>x\<bar>) (- 1022) - 52"] by simp
    then have "0 \<le> rne (x / ?ulp)" by (rule rne_nonneg)
    then have "0 \<le> of_int (rne (x / ?ulp)) * ?ulp"
      using pow2_pos [of "max (ilog2 \<bar>x\<bar>) (- 1022) - 52"] by simp
    then show ?thesis using False by (simp add: round_double_def Let_def)
  qed
qed

lemma round_double_upper:
  assumes x: "0 \<le> x"
  shows "round_double x \<le> x + (x + pow2 (- 1022)) / 2 ^ 53"
proof (cases "x = 0")
  case True
  then show ?thesis using pow2_pos [of "- 1022"] by (simp add: round_double_def)
next
  case False
  with x have pos: "0 < x" by simp
  let ?ulp = "pow2 (max (ilog2 x) (- 1022) - 52)"
  have up: "0 < ?ulp" by (rule pow2_pos)
  have "of_int (rne (x / ?ulp)) * ?ulp \<le> (x / ?ulp + 1 / 2) * ?ulp"
    using rne_upper [of "x / ?ulp"] up by (simp only: mult_le_cancel_right_pos)
  also have "\<dots> = x + ?ulp / 2" using up by (simp add: field_simps)
  also have "\<dots> \<le> x + ((x + pow2 (- 1022)) / 2 ^ 52) / 2"
    using ulp_bound [OF pos] by simp
  also have "\<dots> = x + (x + pow2 (- 1022)) / 2 ^ 53" by simp
  finally show ?thesis using pos by (simp add: round_double_def Let_def)
qed

lemma round_double_le:
  assumes "0 \<le> x" and "x \<le> X"
  shows "round_double x \<le> X + (X + 1) / 2 ^ 53"
proof -
  have "pow2 (- 1022) \<le> pow2 0" by (rule pow2_mono) simp
  then have p: "pow2 (- 1022) \<le> 1" by (simp add: pow2_def)
  have "round_double x \<le> x + (x + pow2 (- 1022)) / 2 ^ 53"
    using assms(1) by (rule round_double_upper)
  also have "\<dots> \<le> x + (x + 1) / 2 ^ 53"
    using p by (simp add: divide_right_mono)
  also have "\<dots> \<le> X + (X + 1) / 2 ^ 53"
    using assms(2) by (simp add: divide_right_mono add_mono)
  finally show ?thesis .
qed

lemma fmul_channel_le:
  assumes c: "0 \<le> c" "c \<le> C" and v: "(v::nat) \<le> 255"
  shows "0 \<le> fmul c (of_nat v)" "fmul c (of_nat v) \<le> C * 255 + (C * 255 + 1) / 2 ^ 53"
proof -
  have n: "0 \<le> c * of_nat v" using c(1) by simp
  have "(of_nat v :: rat) \<le> 255" using v by (metis of_nat_le_iff of_nat_numeral)
  then have m: "c * of_nat v \<le> C * 255" using c by (intro mult_mono) simp_all
  show "0 \<le> fmul c (of_nat v)"
    unfolding fmul_def using n by (rule round_double_nonneg)
  show "fmul c (of_nat v) \<le> C * 255 + (C * 255 + 1) / 2 ^ 53"
    unfolding fmul_def using n m by (rule round_double_le)
qed

lemma lum_sum_range: "0 \<le> lum_sum r g b \<and> lum_sum r g b < 256"
proof -
  have r: "unat r \<le> 255" and g: "unat g \<le> 255" and b: "unat b \<le> 255"
    using unsigned_less [of r, where 'a = nat] unsigned_less [of g, where 'a = nat]
      unsigned_less [of b, where 'a = nat] by simp_all
  let ?c1 = "round_double (299 / 1000)" and ?c2 = "round_double (587 / 1000)"
    and ?c3 = "round_double (114 / 1000)"
  have c1: "0 \<le> ?c1" "?c1 \<le> 2991 / 10000"
    using round_double_le [of "299 / 1000" "299 / 1000"] by (simp_all add: round_double_nonneg)
  have c2: "0 \<le> ?c2" "?c2 \<le> 5871 / 10000"
    using round_double_le [of "587 / 1000" "587 / 1000"] by (simp_all add: round_double_nonneg)
  have c3: "0 \<le> ?c3" "?c3 \<le> 1141 / 10000"
    using round_double_le [of "114 / 1000" "114 / 1000"] by (simp_all add: round_double_nonneg)
  let ?p1 = "fmul ?c1 (of_nat (unat r))" and ?p2 = "fmul ?c2 (of_nat (unat g))"
    and ?p3 = "fmul ?c3 (of_nat (unat b))"
  have p1: "0 \<le> ?p1" "?p1 \<le> 7628 / 100"
    using fmul_channel_le [OF c1 r] by simp_all
  have p2: "0 \<le> ?p2" "?p2 \<le> 14972 / 100"
    using fmul_channel_le [OF c2 g] by simp_all
  have p3: "0 \<le> ?p3" "?p3 \<le> 2910 / 100"
    using fmul_channel_le [OF c3 b] by simp_all
  let ?s1 = "fadd ?p1 ?p2"
  have s1: "0 \<le> ?s1" "?s1 \<le> 22601 / 100"
  proof -
    have "0 \<le> ?p1 + ?p2" "?p1 + ?p2 \<le> 226" using p1 p2 by simp_all
    from round_double_nonneg [OF this(1)] round_double_le [OF this]
    show "0 \<le> ?s1" "?s1 \<le> 22601 / 100" by (simp_all add: fadd_def)
  qed
  have "0 \<le> ?s1 + ?p3" "?s1 + ?p3 \<le> 25511 / 100" using s1 p3 by simp_all
  from round_double_nonneg [OF this(1)] round_double_le [OF this]
  have "0 \<le> fadd ?s1 ?p3" "fadd ?s1 ?p3 \<le> 25512 / 100" by (simp_all add: fadd_def)
  then show ?thesis by (simp add: lum_sum_def)
qed

text \<open>
  The error of one rounding, and of the whole sum against the exact weighted sum: less
  than \<open>2 ^ -41\<close>, far below the distance \<open>1 / 1000\<close> between two exact sums.
\<close>

lemma rne_lower: "q - 1 / 2 \<le> of_int (rne q)"
proof -
  let ?f = "\<lfloor>q\<rfloor>" and ?d = "q - of_int \<lfloor>q\<rfloor>"
  have fl: "of_int ?f \<le> q" by (rule of_int_floor_le)
  show ?thesis
  proof (cases "?d < 1 / 2")
    case True
    then have "rne q = ?f" unfolding rne_def Let_def by (simp only: if_True)
    with True show ?thesis by simp
  next
    case False
    then have "rne q = ?f + 1 \<or> (rne q = ?f \<and> ?d = 1 / 2)"
      unfolding rne_def Let_def by (auto split: if_splits)
    then show ?thesis
    proof
      assume "rne q = ?f + 1"
      then show ?thesis using floor_correct [of q] by simp
    next
      assume "rne q = ?f \<and> ?d = 1 / 2"
      then show ?thesis by simp
    qed
  qed
qed

lemma round_double_lower:
  assumes x: "0 \<le> x"
  shows "x - (x + pow2 (- 1022)) / 2 ^ 53 \<le> round_double x"
proof (cases "x = 0")
  case True
  then show ?thesis using pow2_pos [of "- 1022"] by (simp add: round_double_def)
next
  case False
  with x have pos: "0 < x" by simp
  let ?ulp = "pow2 (max (ilog2 x) (- 1022) - 52)"
  have up: "0 < ?ulp" by (rule pow2_pos)
  have "x - (x + pow2 (- 1022)) / 2 ^ 53 = x - ((x + pow2 (- 1022)) / 2 ^ 52) / 2" by simp
  also have "\<dots> \<le> x - ?ulp / 2" using ulp_bound [OF pos] by simp
  also have "\<dots> = (x / ?ulp - 1 / 2) * ?ulp" using up by (simp add: field_simps)
  also have "\<dots> \<le> of_int (rne (x / ?ulp)) * ?ulp"
    using rne_lower [of "x / ?ulp"] up by (simp only: mult_le_cancel_right_pos)
  finally show ?thesis using pos by (simp add: round_double_def Let_def)
qed

lemma round_double_near:
  assumes "0 \<le> x" and "x \<le> X"
  shows "\<bar>round_double x - x\<bar> \<le> (X + 1) / 2 ^ 53"
proof -
  have "pow2 (- 1022) \<le> pow2 0" by (rule pow2_mono) simp
  then have p: "pow2 (- 1022) \<le> 1" by (simp add: pow2_def)
  have "(x + pow2 (- 1022)) / 2 ^ 53 \<le> (X + 1) / 2 ^ 53"
    using p assms(2) by (intro divide_right_mono) simp_all
  with round_double_upper [OF assms(1)] round_double_lower [OF assms(1)]
  show ?thesis by (simp only: abs_le_iff) linarith
qed

lemma fmul_channel_near:
  assumes a: "0 \<le> a" "a \<le> 1" and v: "(v::nat) \<le> 255"
  shows "\<bar>fmul (round_double a) (of_nat v) - a * of_nat v\<bar> \<le> 767 / 2 ^ 53"
proof -
  let ?c = "round_double a" and ?v = "of_nat v :: rat"
  have v0: "0 \<le> ?v" by simp
  have v1: "?v \<le> 255" using v by (metis of_nat_le_iff of_nat_numeral)
  have c0: "0 \<le> ?c" using a(1) by (rule round_double_nonneg)
  have ce: "\<bar>?c - a\<bar> \<le> 2 / 2 ^ 53" using round_double_near [OF a] by simp
  have "\<bar>?c * ?v - a * ?v\<bar> = \<bar>?c - a\<bar> * ?v" by (simp add: abs_mult left_diff_distrib [symmetric])
  also have "\<dots> \<le> (2 / 2 ^ 53) * 255" using ce v0 v1 by (intro mult_mono) simp_all
  finally have e1: "\<bar>?c * ?v - a * ?v\<bar> \<le> 510 / 2 ^ 53" by simp
  have "a * ?v \<le> 1 * 255" using a v0 v1 by (intro mult_mono) simp_all
  moreover have "(510::rat) / 2 ^ 53 \<le> 1" by simp
  ultimately have "?c * ?v \<le> 256" using e1 by (simp only: abs_le_iff) linarith
  moreover have "0 \<le> ?c * ?v" using c0 v0 by simp
  ultimately have "\<bar>round_double (?c * ?v) - ?c * ?v\<bar> \<le> 257 / 2 ^ 53"
    using round_double_near [of "?c * ?v" 256] by simp
  with e1 show ?thesis unfolding fmul_def by (simp only: abs_le_iff) linarith
qed

lemma lum_sum_near:
  "\<bar>lum_sum r g b - (299 * of_nat (unat r) + 587 * of_nat (unat g) + 114 * of_nat (unat b)) / 1000\<bar>
     \<le> 1 / 2 ^ 41"
proof -
  have r: "unat r \<le> 255" and g: "unat g \<le> 255" and b: "unat b \<le> 255"
    using unsigned_less [of r, where 'a = nat] unsigned_less [of g, where 'a = nat]
      unsigned_less [of b, where 'a = nat] by simp_all
  let ?R = "of_nat (unat r) :: rat" and ?G = "of_nat (unat g) :: rat" and ?B = "of_nat (unat b) :: rat"
  let ?c1 = "round_double (299 / 1000)" and ?c2 = "round_double (587 / 1000)"
    and ?c3 = "round_double (114 / 1000)"
  have c1: "0 \<le> ?c1" "?c1 \<le> 2991 / 10000"
    using round_double_le [of "299 / 1000" "299 / 1000"] by (simp_all add: round_double_nonneg)
  have c2: "0 \<le> ?c2" "?c2 \<le> 5871 / 10000"
    using round_double_le [of "587 / 1000" "587 / 1000"] by (simp_all add: round_double_nonneg)
  have c3: "0 \<le> ?c3" "?c3 \<le> 1141 / 10000"
    using round_double_le [of "114 / 1000" "114 / 1000"] by (simp_all add: round_double_nonneg)
  let ?p1 = "fmul ?c1 ?R" and ?p2 = "fmul ?c2 ?G" and ?p3 = "fmul ?c3 ?B"
  have p1: "0 \<le> ?p1" "?p1 \<le> 7628 / 100"
    using fmul_channel_le [OF c1 r] by simp_all
  have p2: "0 \<le> ?p2" "?p2 \<le> 14972 / 100"
    using fmul_channel_le [OF c2 g] by simp_all
  have p3: "0 \<le> ?p3" "?p3 \<le> 2910 / 100"
    using fmul_channel_le [OF c3 b] by simp_all
  have e1: "\<bar>?p1 - 299 / 1000 * ?R\<bar> \<le> 767 / 2 ^ 53" using r by (intro fmul_channel_near) simp_all
  have e2: "\<bar>?p2 - 587 / 1000 * ?G\<bar> \<le> 767 / 2 ^ 53" using g by (intro fmul_channel_near) simp_all
  have e3: "\<bar>?p3 - 114 / 1000 * ?B\<bar> \<le> 767 / 2 ^ 53" using b by (intro fmul_channel_near) simp_all
  let ?s1 = "fadd ?p1 ?p2"
  have "0 \<le> ?p1 + ?p2" "?p1 + ?p2 \<le> 256" using p1 p2 by simp_all
  from round_double_nonneg [OF this(1)] round_double_le [OF this(1), of 226] round_double_near [OF this]
  have s1: "0 \<le> ?s1" "?s1 \<le> 22601 / 100" and e4: "\<bar>?s1 - (?p1 + ?p2)\<bar> \<le> 257 / 2 ^ 53"
    using p1 p2 by (simp_all add: fadd_def)
  have "0 \<le> ?s1 + ?p3" "?s1 + ?p3 \<le> 256" using s1 p3 by simp_all
  from round_double_near [OF this]
  have e5: "\<bar>fadd ?s1 ?p3 - (?s1 + ?p3)\<bar> \<le> 257 / 2 ^ 53" by (simp add: fadd_def)
  have "\<bar>fadd ?s1 ?p3 - (299 / 1000 * ?R + 587 / 1000 * ?G + 114 / 1000 * ?B)\<bar> \<le> 2815 / 2 ^ 53"
    using e1 e2 e3 e4 e5 by (simp only: abs_le_iff) linarith
  moreover have "(2815::rat) / 2 ^ 53 \<le> 1 / 2 ^ 41" by simp
  moreover have "(299 * ?R + 587 * ?G + 114 * ?B) / 1000 = 299 / 1000 * ?R + 587 / 1000 * ?G + 114 / 1000 * ?B"
    by (simp add: field_simps)
  ultimately show ?thesis unfolding lum_sum_def by (simp only:)
qed

text \<open>
  The three constants as doubles, and roundings that fall on a tie or next to one.
\<close>

lemma coefficients:
  "round_double (299 / 1000) = 5386305154335113 / 2 ^ 54"
  "round_double (587 / 1000) = 2643612981266481 / 2 ^ 52"
  "round_double (114 / 1000) = 8214565720323785 / 2 ^ 56"
  by code_simp+

lemma round_double_samples:
  "round_double (1 / 10) = 3602879701896397 / 2 ^ 55"
  "round_double (1 + 1 / 2 ^ 53) = 1"
  "round_double (1 + 3 / 2 ^ 53) = 1 + 1 / 2 ^ 51"
  "round_double (1 + 5 / 2 ^ 54) = 1 + 1 / 2 ^ 52"
  by code_simp+

text \<open>
  Values of the conversion: white and black; pure red gives 76; the pixel with green 72
  and blue 24 gives 44, one less than the quotient 45 of exact arithmetic, because the
  double precision sum is a little below 45.
\<close>

lemma luminance_white: "luminance 255 255 255 = 255"
  by code_simp

lemma luminance_black: "luminance 0 0 0 = 0"
  by code_simp

lemma luminance_red: "luminance 255 0 0 = 76"
  by code_simp

lemma luminance_rounds_below: "luminance 0 72 24 = 44 \<and> (587 * 72 + 114 * 24) div 1000 = (45::int)"
  by code_simp

text \<open>
  The truncated sum against integer arithmetic: it is the quotient of
  \<open>299 R + 587 G + 114 B\<close> by 1000, except that it can be one less when the division is
  exact (the double precision sum can then fall just below the integer).
\<close>

lemma luminance_quotient:
  "trunc_int (lum_sum r g b)
     = (299 * int (unat r) + 587 * int (unat g) + 114 * int (unat b)) div 1000 \<or>
   ((299 * int (unat r) + 587 * int (unat g) + 114 * int (unat b)) mod 1000 = 0 \<and>
    trunc_int (lum_sum r g b)
      = (299 * int (unat r) + 587 * int (unat g) + 114 * int (unat b)) div 1000 - 1)"
proof -
  define s where "s = 299 * int (unat r) + 587 * int (unat g) + 114 * int (unat b)"
  define L where "L = lum_sum r g b"
  define q where "q = s div 1000"
  define m where "m = s mod 1000"
  have L0: "0 \<le> L" using lum_sum_range [of r g b] by (simp add: L_def)
  then have t: "trunc_int L = \<lfloor>L\<rfloor>" by (simp add: trunc_int_def)
  have "(of_int s :: rat) = 299 * of_nat (unat r) + 587 * of_nat (unat g) + 114 * of_nat (unat b)"
    by (simp add: s_def)
  with lum_sum_near [of r g b] have near: "\<bar>L - of_int s / 1000\<bar> \<le> 1 / 2 ^ 41"
    by (simp only: L_def)
  have "s = 1000 * q + m" by (simp add: q_def m_def)
  then have s: "(of_int s :: rat) / 1000 = of_int q + of_int m / 1000" by simp
  have m: "0 \<le> m" "m < 1000" by (simp_all add: m_def)
  have eps: "(1::rat) / 2 ^ 41 < 1 / 1000" by simp
  have "trunc_int L = q \<or> (m = 0 \<and> trunc_int L = q - 1)"
  proof (cases "m = 0")
    case False
    with m have "1 \<le> m" "m \<le> 999" by simp_all
    then have "(1::rat) \<le> of_int m" "(of_int m :: rat) \<le> 999"
      by simp_all
    then have "(1::rat) / 1000 \<le> of_int m / 1000" "(of_int m :: rat) / 1000 \<le> 999 / 1000"
      by simp_all
    with near s eps have "of_int q \<le> L" "L < of_int q + 1"
      by (simp_all only: abs_le_iff) linarith+
    then have "\<lfloor>L\<rfloor> = q" by (intro floor_unique) simp_all
    with t show ?thesis by simp
  next
    case True
    then have s0: "(of_int s :: rat) / 1000 = of_int q" using s by simp
    show ?thesis
    proof (cases "of_int q \<le> L")
      case le: True
      from near s0 eps have "L < of_int q + 1" by (simp only: abs_le_iff) linarith
      with le have "\<lfloor>L\<rfloor> = q" by (intro floor_unique) simp_all
      with t show ?thesis by simp
    next
      case lt: False
      from near s0 eps have "of_int q - 1 \<le> L" by (simp only: abs_le_iff) linarith
      with lt have "\<lfloor>L\<rfloor> = q - 1" by (intro floor_unique) simp_all
      with t True show ?thesis by simp
    qed
  qed
  then show ?thesis unfolding L_def q_def m_def s_def .
qed

section \<open>Properties of the loader\<close>

subsection \<open>Reading the headers\<close>

lemma fread_file_header:
  "fread 14 (Suc 0) \<lparr>data = d, pos = 0\<rparr> =
     (take 14 d, (if 14 \<le> length d then Suc 0 else 0), \<lparr>data = d, pos = min (length d) 14\<rparr>)"
  by (simp add: fread_def Let_def)

lemma fread_info_header:
  "14 \<le> length d \<Longrightarrow> fread 40 (Suc 0) \<lparr>data = d, pos = 14\<rparr> =
     (take 40 (drop 14 d), (if 54 \<le> length d then Suc 0 else 0),
      \<lparr>data = d, pos = 14 + min (length d - 14) 40\<rparr>)"
  by (simp add: fread_def Let_def)

lemma file_header_fields:
  "14 \<le> length d \<Longrightarrow> type (read_file_header (take 14 d)) = bmp_magic d"
  "14 \<le> length d \<Longrightarrow> offset (read_file_header (take 14 d)) = bmp_offset d"
  by (simp_all add: read_file_header_def bmp_magic_def bmp_offset_def le16_def le32_def)

lemma info_header_fields:
  "54 \<le> length d \<Longrightarrow> width (read_info_header (take 40 (drop 14 d))) = bmp_width d"
  "54 \<le> length d \<Longrightarrow> height (read_info_header (take 40 (drop 14 d))) = bmp_height d"
  "54 \<le> length d \<Longrightarrow> bitDepth (read_info_header (take 40 (drop 14 d))) = bmp_depth d"
  "54 \<le> length d \<Longrightarrow> compression (read_info_header (take 40 (drop 14 d))) = bmp_compression d"
  by (simp_all add: read_info_header_def bmp_width_def bmp_height_def bmp_depth_def
      bmp_compression_def le16_def le32_def)

lemma bmp_dims_range:
  "- (2 ^ 31) \<le> bmp_width d" "bmp_width d < 2 ^ 31"
  "- (2 ^ 31) \<le> bmp_height d" "bmp_height d < 2 ^ 31"
  "- (2 ^ 31) \<le> bmp_rows d" "bmp_rows d < 2 ^ 31"
  using wrap32_range
  by (simp_all add: bmp_width_def bmp_height_def bmp_rows_def s32_def)

lemma bmp_rows_abs:
  "bmp_height d \<noteq> - (2 ^ 31) \<Longrightarrow> bmp_rows d = \<bar>bmp_height d\<bar>"
  using bmp_dims_range(3,4) [of d] by (auto simp: bmp_rows_def wrap32_id)

subsection \<open>The function, path by path\<close>

lemma load_bmp_no_file:
  "files w name = None \<Longrightarrow>
   load_bmp name vars w = Returns (- 1, vars, eprint (CannotOpen name) w)"
  by (simp add: load_bmp_def fopen_def)

lemma load_bmp_file:
  assumes "files w name = Some d"
  shows "load_bmp name vars w =
    (if length d < 14 then Returns (- 1, vars, eprint (CouldNotReadFileHeader name) w)
     else if bmp_magic d \<noteq> 0x4D42 then Returns (- 1, vars, eprint (MagicMismatch name) w)
     else if length d < 54 then Returns (- 1, vars, eprint (CouldNotReadInfoHeader name) w)
     else if bmp_depth d \<noteq> 24 then Returns (- 1, vars, eprint (Not24Bit name (bmp_depth d)) w)
     else if bmp_compression d \<noteq> 0
     then Returns (- 1, vars, eprint (CompressedNotSupported name) w)
     else
       let vars1 = vars\<lparr>width_out := Some (bmp_width d), height_out := Some (bmp_rows d)\<rparr>;
           k = length (heap w)
       in
       if \<not> malloc_ok w k (bmp_plane_size d)
       then Returns (- 1, vars1\<lparr>image_data_out := NULL\<rparr>, eprint CouldNotAllocateImage w)
       else if \<not> malloc_ok w (Suc k) (bmp_stride d)
       then Returns (- 1, vars1\<lparr>image_data_out := Ptr k\<rparr>,
              eprint CouldNotAllocateRow (w\<lparr>heap := heap w @ [Freed]\<rparr>))
       else
         (case read_rows (bmp_stride d) (bmp_width d) (bmp_rows d) 0
                 \<lparr>data = d, pos = bmp_offset d\<rparr> (replicate (bmp_plane_size d) None) of
            ShortRead \<Rightarrow>
              Returns (- 1, vars1\<lparr>image_data_out := Ptr k\<rparr>,
                eprint (CouldNotReadRow name) (w\<lparr>heap := heap w @ [Freed, Freed]\<rparr>))
          | OutOfBounds \<Rightarrow> Undefined
          | RowsDone plane \<Rightarrow>
              Returns (0, vars1\<lparr>image_data_out := Ptr k\<rparr>,
                w\<lparr>heap := heap w @ [Live plane, Freed]\<rparr>)))"
  using assms
  by (simp add: load_bmp_def fopen_def fread_file_header fread_info_header file_header_fields
      info_header_fields Let_def fclose_def eprint_def malloc_def free_def store_block_def fseek_def
      bmp_rows_def bmp_stride_def bmp_plane_size_def min_def list_update_append
      split: rows_result.splits)

lemma load_bmp_valid:
  assumes f: "files w name = Some d" and "54 \<le> length d" and "bmp_magic d = 0x4D42"
    and "bmp_depth d = 24" and "bmp_compression d = 0"
    and "malloc_ok w (length (heap w)) (bmp_plane_size d)"
    and "malloc_ok w (Suc (length (heap w))) (bmp_stride d)"
  shows "load_bmp name vars w =
    (case read_rows (bmp_stride d) (bmp_width d) (bmp_rows d) 0
                 \<lparr>data = d, pos = bmp_offset d\<rparr> (replicate (bmp_plane_size d) None) of
       ShortRead \<Rightarrow>
         Returns (- 1, vars\<lparr>width_out := Some (bmp_width d), height_out := Some (bmp_rows d),
                            image_data_out := Ptr (length (heap w))\<rparr>,
           eprint (CouldNotReadRow name) (w\<lparr>heap := heap w @ [Freed, Freed]\<rparr>))
     | OutOfBounds \<Rightarrow> Undefined
     | RowsDone plane \<Rightarrow>
         Returns (0, vars\<lparr>width_out := Some (bmp_width d), height_out := Some (bmp_rows d),
                           image_data_out := Ptr (length (heap w))\<rparr>,
           w\<lparr>heap := heap w @ [Live plane, Freed]\<rparr>))"
  using assms(2-) by (simp add: load_bmp_file [OF f] Let_def)

lemma load_bmp_success:
  assumes "load_bmp name vars w = Returns (0, vars', w')"
  shows "\<exists>d plane. files w name = Some d \<and> 54 \<le> length d \<and> bmp_magic d = 0x4D42 \<and>
           bmp_depth d = 24 \<and> bmp_compression d = 0 \<and>
           malloc_ok w (length (heap w)) (bmp_plane_size d) \<and>
           malloc_ok w (Suc (length (heap w))) (bmp_stride d) \<and>
           read_rows (bmp_stride d) (bmp_width d) (bmp_rows d) 0
             \<lparr>data = d, pos = bmp_offset d\<rparr> (replicate (bmp_plane_size d) None) = RowsDone plane \<and>
           vars' = vars\<lparr>width_out := Some (bmp_width d), height_out := Some (bmp_rows d),
                         image_data_out := Ptr (length (heap w))\<rparr> \<and>
           w' = w\<lparr>heap := heap w @ [Live plane, Freed]\<rparr>"
proof (cases "files w name")
  case None
  with assms show ?thesis by (simp add: load_bmp_no_file)
next
  case (Some d)
  with assms show ?thesis
    by (simp add: load_bmp_file [OF Some] Let_def split: if_splits rows_result.splits)
qed

lemma block_cells_new:
  "block_cells (Ptr (length (heap w))) (w\<lparr>heap := heap w @ Live plane # bs\<rparr>) = Some plane"
  by (simp add: block_cells_def nth_append)

lemma eprint_fields:
  "stderr (eprint e w) = stderr w @ [e]" "heap (eprint e w) = heap w"
  "open_handles (eprint e w) = open_handles w" "files (eprint e w) = files w"
  by (simp_all add: eprint_def)

lemma live_blocks_freed:
  "live_blocks (w\<lparr>heap := heap w @ [Freed]\<rparr>) = live_blocks w"
  "live_blocks (w\<lparr>heap := heap w @ [Freed, Freed]\<rparr>) = live_blocks w"
  "live_blocks (eprint e w) = live_blocks w"
  by (simp_all add: live_blocks_def eprint_def)

lemma load_bmp_failure:
  assumes "load_bmp name vars w = Returns (r, vars', w')" and "r \<noteq> 0"
  shows "r = - 1 \<and> live_blocks w' = live_blocks w \<and> open_handles w' = open_handles w \<and>
         (\<exists>e. stderr w' = stderr w @ [e])"
proof (cases "files w name")
  case None
  with assms show ?thesis by (auto simp: load_bmp_no_file live_blocks_freed eprint_fields)
next
  case (Some d)
  with assms show ?thesis
    by (auto simp: load_bmp_file [OF Some] Let_def live_blocks_freed eprint_fields
        split: if_splits rows_result.splits)
qed

lemma load_bmp_returns:
  assumes "load_bmp name vars w = Returns (r, vars', w')"
  shows "r = 0 \<or> r = - 1"
  using load_bmp_failure [OF assms] by blast

subsection \<open>The two loops\<close>

lemma store_cell_length: "store_cell m i v = Some m' \<Longrightarrow> length m' = length m"
  by (auto simp: store_cell_def split: if_splits)

lemma convert_row_stop: "\<not> x < W \<Longrightarrow> convert_row bgr base W x plane = Some plane"
  by (subst convert_row.simps) simp

lemma convert_row_step:
  "x < W \<Longrightarrow> convert_row bgr base W x plane =
     (case load_pixel bgr x of
        None \<Rightarrow> None
      | Some (b, g, r) \<Rightarrow>
         (case store_cell plane (base + x) (luminance r g b) of
            None \<Rightarrow> None
          | Some plane' \<Rightarrow> convert_row bgr base W (x + 1) plane'))"
  by (subst convert_row.simps) simp

lemma convert_row_length:
  "convert_row bgr base W x plane = Some plane' \<Longrightarrow> length plane' = length plane"
proof (induction "nat (W - x)" arbitrary: x plane)
  case 0
  then show ?case by (simp add: convert_row_stop)
next
  case (Suc k)
  then have lt: "x < W" and k: "k = nat (W - (x + 1))" by auto
  from Suc.prems lt obtain b g r m where
    st: "store_cell plane (base + x) (luminance r g b) = Some m" and
    rest: "convert_row bgr base W (x + 1) m = Some plane'"
    by (auto simp: convert_row_step split: option.splits)
  from Suc.hyps(1) [OF k rest] store_cell_length [OF st] show ?case by simp
qed

lemma single_pixel: "convert_row [b, g, r] 0 1 0 [c] = Some [Some (luminance r g b)]"
  by (simp add: convert_row.simps [of _ _ _ 0] convert_row.simps [of _ _ _ 1]
      load_pixel_def load_cell_def store_cell_def wrap32_def)

lemma fread_row_full:
  "n \<le> length (data f) - pos f \<Longrightarrow>
   fread (Suc 0) n f = (take n (drop (pos f) (data f)), n, f\<lparr>pos := pos f + n\<rparr>)"
  by (simp add: fread_def Let_def min_def)

lemma fread_row_short:
  "\<not> n \<le> length (data f) - pos f \<Longrightarrow> fst (snd (fread (Suc 0) n f)) \<noteq> n"
  by (simp add: fread_def Let_def min_def)

lemma read_rows_stop: "\<not> y < H \<Longrightarrow> read_rows n W H y f plane = RowsDone plane"
  by (subst read_rows.simps) simp

lemma read_rows_step_short:
  "y < H \<Longrightarrow> \<not> n \<le> length (data f) - pos f \<Longrightarrow> read_rows n W H y f plane = ShortRead"
  using fread_row_short [of n f]
  by (subst read_rows.simps) (simp add: split_beta)

lemma read_rows_step_full:
  "y < H \<Longrightarrow> n \<le> length (data f) - pos f \<Longrightarrow> read_rows n W H y f plane =
     (case convert_row (take n (drop (pos f) (data f))) (wrap32 ((H - 1 - y) * W)) W 0 plane of
        None \<Rightarrow> OutOfBounds
      | Some m \<Rightarrow> read_rows n W H (y + 1) (f\<lparr>pos := pos f + n\<rparr>) m)"
  by (subst read_rows.simps) (simp add: fread_row_full)

lemma read_rows_step:
  "y < H \<Longrightarrow> read_rows n W H y f plane =
     (if \<not> n \<le> length (data f) - pos f then ShortRead
      else (case convert_row (take n (drop (pos f) (data f))) (wrap32 ((H - 1 - y) * W)) W 0 plane of
              None \<Rightarrow> OutOfBounds
            | Some m \<Rightarrow> read_rows n W H (y + 1) (f\<lparr>pos := pos f + n\<rparr>) m))"
  by (simp add: read_rows_step_short read_rows_step_full)

lemma read_rows_length:
  "read_rows n W H y f plane = RowsDone plane' \<Longrightarrow> length plane' = length plane"
proof (induction "nat (H - y)" arbitrary: y f plane)
  case 0
  then show ?case by (simp add: read_rows_stop)
next
  case (Suc k)
  then have lt: "y < H" and k: "k = nat (H - (y + 1))" by auto
  from Suc.prems lt obtain m where
    cr: "convert_row (take n (drop (pos f) (data f))) (wrap32 ((H - 1 - y) * W)) W 0 plane = Some m" and
    rest: "read_rows n W H (y + 1) (f\<lparr>pos := pos f + n\<rparr>) m = RowsDone plane'"
    by (auto simp: read_rows_step split: option.splits if_splits)
  from Suc.hyps(1) [OF k rest] convert_row_length [OF cr] show ?case by simp
qed

lemma read_rows_done_enough:
  "read_rows n W H y f plane = RowsDone plane' \<Longrightarrow>
   n = 0 \<or> pos f + nat (H - y) * n \<le> max (pos f) (length (data f))"
proof (induction "nat (H - y)" arbitrary: y f plane)
  case 0
  then show ?case by simp
next
  case (Suc k)
  then have lt: "y < H" and k: "k = nat (H - (y + 1))" by auto
  have s: "nat (H - y) = Suc (nat (H - (y + 1)))" using lt by simp
  from Suc.prems lt obtain m where
    full: "n \<le> length (data f) - pos f" and
    rest: "read_rows n W H (y + 1) (f\<lparr>pos := pos f + n\<rparr>) m = RowsDone plane'"
    by (auto simp: read_rows_step split: option.splits if_splits)
  from Suc.hyps(1) [OF k rest]
  have ih: "n = 0 \<or> pos f + n + nat (H - (y + 1)) * n \<le> max (pos f + n) (length (data f))"
    by simp
  from full have le: "n = 0 \<or> pos f + n \<le> length (data f)"
    by auto
  show ?case
  proof (cases "n = 0")
    case True
    then show ?thesis by simp
  next
    case False
    with le ih show ?thesis unfolding s by (auto simp: max_def split: if_splits)
  qed
qed

lemma read_rows_short:
  "read_rows n W H y f plane = ShortRead \<Longrightarrow>
   y < H \<and> length (data f) < pos f + nat (H - y) * n"
proof (induction "nat (H - y)" arbitrary: y f plane)
  case 0
  then show ?case by (simp add: read_rows_stop)
next
  case (Suc k)
  then have lt: "y < H" and k: "k = nat (H - (y + 1))" by auto
  have s: "nat (H - y) = Suc (nat (H - (y + 1)))" using lt by simp
  show ?case
  proof (cases "n \<le> length (data f) - pos f")
    case False
    then have "length (data f) < pos f + n" by auto
    then show ?thesis using lt unfolding s by simp
  next
    case full: True
    from Suc.prems lt full obtain m where
      rest: "read_rows n W H (y + 1) (f\<lparr>pos := pos f + n\<rparr>) m = ShortRead"
      by (auto simp: read_rows_step split: option.splits if_splits)
    from Suc.hyps(1) [OF k rest]
    have "length (data f) < pos f + n + nat (H - (y + 1)) * n" by simp
    then show ?thesis using lt unfolding s by simp
  qed
qed

lemma read_rows_short_pos:
  "read_rows n W H y f plane = ShortRead \<Longrightarrow> 0 < n"
proof (induction "nat (H - y)" arbitrary: y f plane)
  case 0
  then show ?case by (simp add: read_rows_stop)
next
  case (Suc k)
  then have lt: "y < H" and k: "k = nat (H - (y + 1))" by auto
  show ?case
  proof (cases "n \<le> length (data f) - pos f")
    case False
    then show ?thesis by auto
  next
    case True
    from Suc.prems lt True obtain m where
      rest: "read_rows n W H (y + 1) (f\<lparr>pos := pos f + n\<rparr>) m = ShortRead"
      by (auto simp: read_rows_step split: option.splits if_splits)
    from Suc.hyps(1) [OF k rest] show ?thesis .
  qed
qed

lemma read_rows_short_iff:
  assumes "read_rows n W H 0 f plane \<noteq> OutOfBounds"
  shows "read_rows n W H 0 f plane = ShortRead \<longleftrightarrow>
         0 < H \<and> 0 < n \<and> length (data f) < pos f + nat H * n"
proof
  assume s: "read_rows n W H 0 f plane = ShortRead"
  from read_rows_short [OF s] read_rows_short_pos [OF s]
  show "0 < H \<and> 0 < n \<and> length (data f) < pos f + nat H * n" by simp
next
  assume a: "0 < H \<and> 0 < n \<and> length (data f) < pos f + nat H * n"
  show "read_rows n W H 0 f plane = ShortRead"
  proof (cases "read_rows n W H 0 f plane")
    case (RowsDone p)
    from read_rows_done_enough [OF RowsDone] a show ?thesis
      by (auto simp: max_def split: if_splits)
  next
    case ShortRead
    then show ?thesis .
  next
    case OutOfBounds
    with assms show ?thesis by simp
  qed
qed

lemma successful_load_plane:
  assumes "load_bmp name vars w = Returns (0, vars', w')"
  shows "\<exists>d plane. files w name = Some d \<and>
           width_out vars' = Some (bmp_width d) \<and> height_out vars' = Some (bmp_rows d) \<and>
           block_cells (image_data_out vars') w' = Some plane \<and>
           length plane = bmp_plane_size d"
proof -
  from load_bmp_success [OF assms] obtain d plane where
    f: "files w name = Some d" and
    rr: "read_rows (bmp_stride d) (bmp_width d) (bmp_rows d) 0
           \<lparr>data = d, pos = bmp_offset d\<rparr> (replicate (bmp_plane_size d) None) = RowsDone plane" and
    v: "vars' = vars\<lparr>width_out := Some (bmp_width d), height_out := Some (bmp_rows d),
                      image_data_out := Ptr (length (heap w))\<rparr>" and
    w: "w' = w\<lparr>heap := heap w @ [Live plane, Freed]\<rparr>"
    by blast
  have "length plane = bmp_plane_size d"
    using read_rows_length [OF rr] by simp
  moreover have "block_cells (image_data_out vars') w' = Some plane"
    by (simp add: v w block_cells_new)
  ultimately show ?thesis using f v by auto
qed

subsection \<open>What the loops store\<close>

lemma load_pixel_in_range:
  assumes "0 \<le> x" "3 * x + 2 < 2 ^ 31" "nat (3 * x + 2) < length bgr"
  shows "load_pixel bgr x = Some (bgr ! nat (3 * x), bgr ! nat (3 * x + 1), bgr ! nat (3 * x + 2))"
proof -
  have w: "wrap32 (x * 3 + 0) = 3 * x" "wrap32 (x * 3 + 1) = 3 * x + 1"
    "wrap32 (x * 3 + 2) = 3 * x + 2"
    using assms(1,2) by (simp_all add: wrap32_id)
  have c: "load_cell bgr (3 * x) = Some (bgr ! nat (3 * x))"
    "load_cell bgr (3 * x + 1) = Some (bgr ! nat (3 * x + 1))"
    "load_cell bgr (3 * x + 2) = Some (bgr ! nat (3 * x + 2))"
    using assms(1,3) by (simp_all add: load_cell_def)
  show ?thesis unfolding load_pixel_def w c by simp
qed

lemma convert_row_correct:
  assumes "3 * W \<le> 2 ^ 31" and "nat (3 * W) \<le> length bgr"
    and "0 \<le> base" and "base + W \<le> int (length plane)"
  shows "0 \<le> x \<Longrightarrow> \<exists>plane'. convert_row bgr base W x plane = Some plane' \<and>
           length plane' = length plane \<and>
           (\<forall>i<length plane. plane' ! i =
              (if base + x \<le> int i \<and> int i < base + W
               then Some (luminance (bgr ! (3 * nat (int i - base) + 2))
                                    (bgr ! (3 * nat (int i - base) + 1))
                                    (bgr ! (3 * nat (int i - base))))
               else plane ! i))"
  using assms(4)
proof (induction "nat (W - x)" arbitrary: x plane)
  case 0
  then have n: "\<not> x < W" by simp
  show ?case
  proof (intro exI conjI allI impI)
    show "convert_row bgr base W x plane = Some plane" using n by (rule convert_row_stop)
    show "length plane = length plane" ..
    fix i
    have "\<not> (base + x \<le> int i \<and> int i < base + W)" using n by linarith
    then show "plane ! i =
              (if base + x \<le> int i \<and> int i < base + W
               then Some (luminance (bgr ! (3 * nat (int i - base) + 2))
                                    (bgr ! (3 * nat (int i - base) + 1))
                                    (bgr ! (3 * nat (int i - base))))
               else plane ! i)"
      by (simp only: if_False)
  qed
next
  case (Suc k)
  then have lt: "x < W" and k: "k = nat (W - (x + 1))" by auto
  have px: "load_pixel bgr x = Some (bgr ! nat (3 * x), bgr ! nat (3 * x + 1), bgr ! nat (3 * x + 2))"
    using Suc.prems(1) lt assms(1,2) by (intro load_pixel_in_range) auto
  let ?v = "luminance (bgr ! nat (3 * x + 2)) (bgr ! nat (3 * x + 1)) (bgr ! nat (3 * x))"
  let ?p1 = "plane[nat (base + x) := Some ?v]"
  have st: "store_cell plane (base + x) ?v = Some ?p1"
    using Suc.prems lt assms(3) by (simp add: store_cell_def)
  have step: "convert_row bgr base W x plane = convert_row bgr base W (x + 1) ?p1"
    using lt px st by (simp add: convert_row_step)
  have "0 \<le> x + 1" "base + W \<le> int (length ?p1)" using Suc.prems by simp_all
  from Suc.hyps(1) [OF k this] obtain plane' where
    r: "convert_row bgr base W (x + 1) ?p1 = Some plane'" and
    l: "length plane' = length ?p1" and
    c: "\<forall>i<length ?p1. plane' ! i =
              (if base + (x + 1) \<le> int i \<and> int i < base + W
               then Some (luminance (bgr ! (3 * nat (int i - base) + 2))
                                    (bgr ! (3 * nat (int i - base) + 1))
                                    (bgr ! (3 * nat (int i - base))))
               else ?p1 ! i)"
    by blast
  have "plane' ! i =
              (if base + x \<le> int i \<and> int i < base + W
               then Some (luminance (bgr ! (3 * nat (int i - base) + 2))
                                    (bgr ! (3 * nat (int i - base) + 1))
                                    (bgr ! (3 * nat (int i - base))))
               else plane ! i)" if i: "i < length plane" for i
  proof (cases "int i = base + x")
    case True
    then have n: "nat (base + x) = i" "nat (int i - base) = nat x" by simp_all
    have e: "nat (3 * x + 2) = 3 * nat x + 2" "nat (3 * x + 1) = 3 * nat x + 1"
      "nat (3 * x) = 3 * nat x"
      using Suc.prems(1) by (simp_all add: nat_add_distrib nat_mult_distrib)
    from c i True lt have "plane' ! i = ?p1 ! i" by simp
    also have "\<dots> = Some ?v" using i n by simp
    finally show ?thesis using True lt by (simp add: n e)
  next
    case False
    then have "nat (base + x) \<noteq> i" using assms(3) Suc.prems(1) by auto
    then have "?p1 ! i = plane ! i" by simp
    with c i False show ?thesis by auto
  qed
  with r l step show ?case by simp
qed

lemma read_rows_correct:
  assumes W: "0 < W" "3 * W \<le> 2 ^ 31" and n: "nat (3 * W) \<le> n" and WH: "W * H < 2 ^ 31"
    and enough: "P + nat H * n \<le> length d"
  shows "0 \<le> y \<Longrightarrow> y \<le> H \<Longrightarrow> length plane0 = nat (W * H) \<Longrightarrow>
    \<exists>plane'. read_rows n W H y \<lparr>data = d, pos = P + nat y * n\<rparr> plane0 = RowsDone plane' \<and>
      length plane' = length plane0 \<and>
      (\<forall>i<length plane0. plane' ! i =
         (if i < nat ((H - y) * W)
          then Some (stored_luminance d P n (nat H - 1 - i div nat W) (i mod nat W))
          else plane0 ! i))"
proof (induction "nat (H - y)" arbitrary: y plane0)
  case 0
  then have e: "H = y" by simp
  show ?case by (simp add: read_rows_stop e)
next
  case (Suc k)
  then have lt: "y < H" and k: "k = nat (H - (y + 1))" by auto
  let ?pos = "P + nat y * n"
  let ?f = "\<lparr>data = d, pos = ?pos\<rparr>"
  let ?bgr = "take n (drop ?pos d)"
  let ?base = "(H - 1 - y) * W"
  have yH: "nat y + 1 \<le> nat H" using lt Suc.prems(1) by simp
  then have "(nat y + 1) * n \<le> nat H * n" by (rule mult_le_mono1)
  then have room: "?pos + n \<le> length d" using enough by simp
  then have full: "n \<le> length (data ?f) - pos ?f" by simp
  have lb: "length ?bgr = n" using room by simp
  have b0: "0 \<le> ?base" using lt W(1) by simp
  have "?base + W = (H - y) * W" by (simp add: algebra_simps)
  also have "\<dots> \<le> H * W" using Suc.prems(1) W(1) by (intro mult_right_mono) simp_all
  finally have bW: "?base + W \<le> W * H" by (simp add: mult.commute)
  then have "?base < 2 ^ 31" using WH W(1) by simp
  with b0 have wb: "wrap32 ?base = ?base" by (simp add: wrap32_id)
  have fit: "?base + W \<le> int (length plane0)" using bW Suc.prems(3) W(1) lt Suc.prems(1) by simp
  have nb: "nat (3 * W) \<le> length ?bgr" using n lb by simp
  have "0 \<le> (0::int)" by simp
  from convert_row_correct [OF W(2) nb b0 fit this] obtain plane1 where
    cr: "convert_row ?bgr ?base W 0 plane0 = Some plane1" and
    l1: "length plane1 = length plane0" and
    c1: "\<forall>i<length plane0. plane1 ! i =
              (if ?base \<le> int i \<and> int i < ?base + W
               then Some (luminance (?bgr ! (3 * nat (int i - ?base) + 2))
                                    (?bgr ! (3 * nat (int i - ?base) + 1))
                                    (?bgr ! (3 * nat (int i - ?base))))
               else plane0 ! i)"
    by auto
  have step: "read_rows n W H y ?f plane0 =
      read_rows n W H (y + 1) \<lparr>data = d, pos = P + nat (y + 1) * n\<rparr> plane1"
  proof -
    have np: "P + nat (y + 1) * n = ?pos + n"
      using Suc.prems(1) by (simp add: nat_add_distrib)
    show ?thesis unfolding np using lt full cr wb by (simp add: read_rows_step_full)
  qed
  have "0 \<le> y + 1" "y + 1 \<le> H" "length plane1 = nat (W * H)"
    using Suc.prems lt l1 by simp_all
  from Suc.hyps(1) [OF k this] obtain plane' where
    r: "read_rows n W H (y + 1) \<lparr>data = d, pos = P + nat (y + 1) * n\<rparr> plane1 = RowsDone plane'" and
    l: "length plane' = length plane1" and
    c: "\<forall>i<length plane1. plane' ! i =
         (if i < nat ((H - (y + 1)) * W)
          then Some (stored_luminance d P n (nat H - 1 - i div nat W) (i mod nat W))
          else plane1 ! i)"
    by blast
  have base_eq: "(H - (y + 1)) * W = ?base" by (simp add: algebra_simps)
  have "plane' ! i =
         (if i < nat ((H - y) * W)
          then Some (stored_luminance d P n (nat H - 1 - i div nat W) (i mod nat W))
          else plane0 ! i)" if i: "i < length plane0" for i
  proof (cases "i < nat ?base")
    case True
    then have "i < nat ((H - y) * W)" using W(1) lt by (simp add: algebra_simps nat_less_iff)
    with c i l1 True show ?thesis by (simp add: base_eq)
  next
    case False
    then have p: "plane' ! i = plane1 ! i" using c i l1 by (simp add: base_eq)
    show ?thesis
    proof (cases "i < nat ((H - y) * W)")
      case False
      then have "\<not> int i < ?base + W" by (simp add: algebra_simps)
      with c1 i p False show ?thesis by simp
    next
      case True
      define c where "c = i - nat ?base"
      have ib: "?base \<le> int i" "int i < ?base + W"
        using False True b0 by (simp_all add: algebra_simps)
      then have cW: "c < nat W" and ci: "int c = int i - ?base"
        using b0 by (simp_all add: c_def)
      have nb: "nat ?base = nat (H - 1 - y) * nat W"
        using lt W(1) by (simp add: nat_mult_distrib)
      have idec: "i = nat (H - 1 - y) * nat W + c" using ib b0 nb by (simp add: c_def)
      have dv: "i div nat W = nat (H - 1 - y)" "i mod nat W = c"
        using cW by (simp_all add: idec)
      have row: "nat H - 1 - nat (H - 1 - y) = nat y" using lt Suc.prems(1) by simp
      have j: "3 * c + 2 < n" using cW n W(1) by (simp add: nat_mult_distrib)
      have g: "?bgr ! (3 * c + 2) = d ! (?pos + 3 * c + 2)"
        "?bgr ! (3 * c + 1) = d ! (?pos + 3 * c + 1)"
        "?bgr ! (3 * c) = d ! (?pos + 3 * c)"
        using j room by (simp_all add: add.assoc)
      have cn: "nat (int i - ?base) = c" using ib by (simp add: c_def nat_diff_distrib' b0)
      have pl: "plane1 ! i = Some (luminance (?bgr ! (3 * c + 2)) (?bgr ! (3 * c + 1)) (?bgr ! (3 * c)))"
        using c1 i ib by (simp add: cn)
      have v: "stored_luminance d P n (nat H - 1 - i div nat W) (i mod nat W) =
          luminance (?bgr ! (3 * c + 2)) (?bgr ! (3 * c + 1)) (?bgr ! (3 * c))"
        unfolding stored_luminance_def dv row g by (rule refl)
      from p pl v
      have "plane' ! i = Some (stored_luminance d P n (nat H - 1 - i div nat W) (i mod nat W))"
        by (simp only:)
      then show ?thesis using True by (simp only: if_True)
    qed
  qed
  with r l l1 step show ?case by simp
qed

text \<open>
  For a file that passes all checks and whose dimensions are in range (positive width
  and row count, \<open>3 * W + 3\<close> and \<open>W * H\<close> within \<^verbatim>\<open>int\<close>), \<^verbatim>\<open>load_bmp\<close> returns 0 and stored
  row \<open>y\<close> is row \<open>H - 1 - y\<close> of the plane, whatever the sign of the height field.
\<close>

lemma load_bmp_layout:
  assumes f: "files w name = Some d" and hdr: "54 \<le> length d" "bmp_magic d = 0x4D42"
    "bmp_depth d = 24" "bmp_compression d = 0"
    and W: "0 < bmp_width d" "3 * bmp_width d + 3 < 2 ^ 31"
    and H: "0 < bmp_rows d" and WH: "bmp_width d * bmp_rows d < 2 ^ 31"
    and m: "malloc_ok w (length (heap w)) (bmp_plane_size d)"
      "malloc_ok w (Suc (length (heap w))) (bmp_stride d)"
    and enough: "bmp_offset d + nat (bmp_rows d) * bmp_stride d \<le> length d"
  shows "\<exists>plane. load_bmp name vars w =
           Returns (0, vars\<lparr>width_out := Some (bmp_width d), height_out := Some (bmp_rows d),
                            image_data_out := Ptr (length (heap w))\<rparr>,
                    w\<lparr>heap := heap w @ [Live plane, Freed]\<rparr>) \<and>
           length plane = nat (bmp_width d) * nat (bmp_rows d) \<and>
           (\<forall>y<nat (bmp_rows d). \<forall>x<nat (bmp_width d).
              plane ! ((nat (bmp_rows d) - 1 - y) * nat (bmp_width d) + x)
                = Some (pixel_luminance d y x))"
proof -
  let ?W = "bmp_width d" and ?H = "bmp_rows d" and ?n = "bmp_stride d"
  have ps: "bmp_plane_size d = nat (?W * ?H)"
    unfolding bmp_plane_size_def using W(1) H WH by (intro plane_request_fits) simp_all
  have n: "nat (3 * ?W) \<le> ?n"
    unfolding bmp_stride_def using W by (intro stride_bounds) simp_all
  have W3: "3 * ?W \<le> 2 ^ 31" using W(2) by simp
  have l0: "length (replicate (bmp_plane_size d) (None :: byte option)) = nat (?W * ?H)"
    by (simp add: ps)
  have "0 \<le> (0::int)" "(0::int) \<le> ?H" using H by simp_all
  from read_rows_correct [OF W(1) W3 n WH enough this l0] obtain plane where
    r: "read_rows ?n ?W ?H 0 \<lparr>data = d, pos = bmp_offset d\<rparr>
          (replicate (bmp_plane_size d) None) = RowsDone plane" and
    l: "length plane = nat (?W * ?H)" and
    c: "\<forall>i<nat (?W * ?H). plane ! i =
         (if i < nat (?H * ?W)
          then Some (stored_luminance d (bmp_offset d) ?n (nat ?H - 1 - i div nat ?W) (i mod nat ?W))
          else replicate (bmp_plane_size d) None ! i)"
    by (auto simp: ps)
  have run: "load_bmp name vars w =
      Returns (0, vars\<lparr>width_out := Some ?W, height_out := Some ?H,
                       image_data_out := Ptr (length (heap w))\<rparr>,
               w\<lparr>heap := heap w @ [Live plane, Freed]\<rparr>)"
    using load_bmp_valid [OF f hdr m, of vars] r by simp
  have len: "length plane = nat ?W * nat ?H"
    using l W(1) by (simp add: nat_mult_distrib)
  have cell: "plane ! ((nat ?H - 1 - y) * nat ?W + x) = Some (pixel_luminance d y x)"
    if y: "y < nat ?H" and x: "x < nat ?W" for y x
  proof -
    let ?i = "(nat ?H - 1 - y) * nat ?W + x"
    have "?i < (nat ?H - 1 - y) * nat ?W + nat ?W" using x by simp
    also have "\<dots> = (nat ?H - y) * nat ?W"
      using y by (simp add: algebra_simps Suc_diff_Suc [symmetric] del: Suc_diff_Suc)
    also have "\<dots> \<le> nat ?H * nat ?W" by (intro mult_le_mono1) simp
    finally have i: "?i < nat (?W * ?H)"
      using W(1) by (simp add: nat_mult_distrib mult.commute)
    have dv: "?i div nat ?W = nat ?H - 1 - y" "?i mod nat ?W = x" using x by simp_all
    have row: "nat ?H - 1 - (nat ?H - 1 - y) = y" using y by simp
    from c i have "plane ! ?i =
        Some (stored_luminance d (bmp_offset d) ?n (nat ?H - 1 - ?i div nat ?W) (?i mod nat ?W))"
      by (simp add: mult.commute)
    then show ?thesis unfolding dv row pixel_luminance_def .
  qed
  from run len cell show ?thesis by blast
qed

subsection \<open>Defined runs\<close>

text \<open>
  With the dimensions in range no access of the loops leaves its block, whatever the
  length of the file, and the run returns. A run that returns fails if and only if a check
  fails; a short row is one of the failures.
\<close>

lemma convert_row_empty: "W \<le> 0 \<Longrightarrow> convert_row bgr base W 0 plane = Some plane"
  by (simp add: convert_row_stop)

lemma read_rows_empty_rows:
  "W \<le> 0 \<Longrightarrow> read_rows n W H y f plane \<noteq> OutOfBounds"
proof (induction "nat (H - y)" arbitrary: y f plane)
  case 0
  then show ?case by (simp add: read_rows_stop)
next
  case (Suc k)
  then have lt: "y < H" and k: "k = nat (H - (y + 1))" by auto
  show ?case
  proof (cases "n \<le> length (data f) - pos f")
    case False
    with lt show ?thesis by (simp add: read_rows_step_short)
  next
    case True
    have "read_rows n W H y f plane = read_rows n W H (y + 1) (f\<lparr>pos := pos f + n\<rparr>) plane"
      using lt True Suc.prems by (simp add: read_rows_step_full convert_row_empty)
    with Suc.hyps(1) [OF k Suc.prems] show ?thesis by simp
  qed
qed

lemma read_rows_defined:
  assumes W: "0 < W" "3 * W \<le> 2 ^ 31" and n: "nat (3 * W) \<le> n" and WH: "W * H < 2 ^ 31"
  shows "0 \<le> y \<Longrightarrow> length plane = nat (W * H) \<Longrightarrow> read_rows n W H y f plane \<noteq> OutOfBounds"
proof (induction "nat (H - y)" arbitrary: y f plane)
  case 0
  then show ?case by (simp add: read_rows_stop)
next
  case (Suc k)
  then have lt: "y < H" and k: "k = nat (H - (y + 1))" by auto
  show ?case
  proof (cases "n \<le> length (data f) - pos f")
    case False
    with lt show ?thesis by (simp add: read_rows_step_short)
  next
    case True
    let ?bgr = "take n (drop (pos f) (data f))"
    let ?base = "(H - 1 - y) * W"
    have lb: "length ?bgr = n" using True by simp
    have b0: "0 \<le> ?base" using lt W(1) by simp
    have "?base + W = (H - y) * W" by (simp add: algebra_simps)
    also have "\<dots> \<le> H * W" using Suc.prems(1) W(1) by (intro mult_right_mono) simp_all
    finally have bW: "?base + W \<le> W * H" by (simp add: mult.commute)
    then have "?base < 2 ^ 31" using WH W(1) by simp
    with b0 have wb: "wrap32 ?base = ?base" by (simp add: wrap32_id)
    have fit: "?base + W \<le> int (length plane)" using bW Suc.prems(2) W(1) lt Suc.prems(1) by simp
    have nb: "nat (3 * W) \<le> length ?bgr" using n lb by simp
    have "0 \<le> (0::int)" by simp
    from convert_row_correct [OF W(2) nb b0 fit this] obtain plane1 where
      cr: "convert_row ?bgr ?base W 0 plane = Some plane1" and
      l1: "length plane1 = length plane"
      by auto
    have step: "read_rows n W H y f plane = read_rows n W H (y + 1) (f\<lparr>pos := pos f + n\<rparr>) plane1"
      using lt True cr wb by (simp add: read_rows_step_full)
    have "0 \<le> y + 1" "length plane1 = nat (W * H)" using Suc.prems l1 by simp_all
    from Suc.hyps(1) [OF k this] step show ?thesis by simp
  qed
qed

lemma load_bmp_defined:
  assumes "\<And>d. files w name = Some d \<Longrightarrow> dimensions_in_range d"
  shows "load_bmp name vars w \<noteq> Undefined"
proof (cases "files w name")
  case None
  then show ?thesis by (simp add: load_bmp_no_file)
next
  case (Some d)
  note dr = assms [OF Some]
  have rr: "read_rows (bmp_stride d) (bmp_width d) (bmp_rows d) 0
                 \<lparr>data = d, pos = bmp_offset d\<rparr> (replicate (bmp_plane_size d) None) \<noteq> OutOfBounds"
  proof (cases "0 < bmp_width d")
    case False
    then show ?thesis by (intro read_rows_empty_rows) simp
  next
    case W: True
    show ?thesis
    proof (cases "0 < bmp_rows d")
      case False
      then show ?thesis by (simp add: read_rows_stop)
    next
      case H: True
      from dr W H have r: "3 * bmp_width d + 3 < 2 ^ 31" "bmp_width d * bmp_rows d < 2 ^ 31"
        by (simp_all add: dimensions_in_range_def)
      have p: "bmp_plane_size d = nat (bmp_width d * bmp_rows d)"
        unfolding bmp_plane_size_def using W H r(2) by (intro plane_request_fits) simp_all
      have s: "nat (3 * bmp_width d) \<le> bmp_stride d"
        using stride_bounds [of "bmp_width d"] W r(1) by (simp add: bmp_stride_def)
      show ?thesis
        using W r s by (intro read_rows_defined) (simp_all add: p)
    qed
  qed
  show ?thesis
    using rr by (simp add: load_bmp_file [OF Some] Let_def split: rows_result.splits)
qed

lemma load_bmp_result_iff:
  assumes "load_bmp name vars w \<noteq> Undefined"
  shows
    "((\<exists>vars' w'. load_bmp name vars w = Returns (- 1, vars', w')) \<longleftrightarrow> \<not> checks_pass name w) \<and>
     ((\<exists>vars' w'. load_bmp name vars w = Returns (0, vars', w')) \<longleftrightarrow> checks_pass name w)"
proof -
  have ok: "(\<exists>vars' w'. load_bmp name vars w = Returns (0, vars', w')) \<longleftrightarrow> checks_pass name w"
  proof (cases "files w name")
    case None
    then show ?thesis by (simp add: load_bmp_no_file checks_pass_def)
  next
    case (Some d)
    show ?thesis
    proof (cases "54 \<le> length d \<and> bmp_magic d = 0x4D42 \<and> bmp_depth d = 24 \<and>
        bmp_compression d = 0 \<and> malloc_ok w (length (heap w)) (bmp_plane_size d) \<and>
        malloc_ok w (Suc (length (heap w))) (bmp_stride d)")
      case False
      then show ?thesis
        by (auto simp: load_bmp_file [OF Some] checks_pass_def Some Let_def)
    next
      case True
      let ?rr = "read_rows (bmp_stride d) (bmp_width d) (bmp_rows d) 0
                 \<lparr>data = d, pos = bmp_offset d\<rparr> (replicate (bmp_plane_size d) None)"
      have v: "load_bmp name vars w =
        (case ?rr of
           ShortRead \<Rightarrow>
             Returns (- 1, vars\<lparr>width_out := Some (bmp_width d), height_out := Some (bmp_rows d),
                            image_data_out := Ptr (length (heap w))\<rparr>,
               eprint (CouldNotReadRow name) (w\<lparr>heap := heap w @ [Freed, Freed]\<rparr>))
         | OutOfBounds \<Rightarrow> Undefined
         | RowsDone plane \<Rightarrow>
             Returns (0, vars\<lparr>width_out := Some (bmp_width d), height_out := Some (bmp_rows d),
                           image_data_out := Ptr (length (heap w))\<rparr>,
               w\<lparr>heap := heap w @ [Live plane, Freed]\<rparr>))"
        using True by (intro load_bmp_valid [OF Some]) simp_all
      from assms v have nb: "?rr \<noteq> OutOfBounds" by auto
      have va: "checks_pass name w \<longleftrightarrow> rows_available d"
        using True by (simp add: checks_pass_def Some)
      have "?rr = ShortRead \<longleftrightarrow> \<not> rows_available d"
        using read_rows_short_iff [OF nb] by (auto simp: rows_available_def)
      then show ?thesis using nb unfolding va v by (cases ?rr) auto
    qed
  qed
  have fail: "(\<exists>vars' w'. load_bmp name vars w = Returns (- 1, vars', w')) \<longleftrightarrow> \<not> checks_pass name w"
  proof (cases "load_bmp name vars w")
    case Undefined
    with assms show ?thesis by simp
  next
    case (Returns x)
    obtain r vars' w' where x: "x = (r, vars', w')" by (cases x)
    from load_bmp_returns [OF Returns [unfolded x]] ok show ?thesis
      unfolding Returns x by auto
  qed
  show ?thesis by (rule conjI [OF fail ok])
qed

lemma short_rows_fail:
  assumes "files w name = Some d" and "54 \<le> length d" and "bmp_magic d = 0x4D42"
    and "bmp_depth d = 24" and "bmp_compression d = 0"
    and "malloc_ok w (length (heap w)) (bmp_plane_size d)"
    and "malloc_ok w (Suc (length (heap w))) (bmp_stride d)"
    and "0 < bmp_rows d" and "0 < bmp_stride d"
    and "length d < bmp_offset d + nat (bmp_rows d) * bmp_stride d"
    and "load_bmp name vars w \<noteq> Undefined"
  shows "\<exists>vars' w'. load_bmp name vars w = Returns (- 1, vars', w') \<and>
           stderr w' = stderr w @ [CouldNotReadRow name] \<and>
           heap w' = heap w @ [Freed, Freed] \<and>
           image_data_out vars' = Ptr (length (heap w)) \<and>
           block_cells (image_data_out vars') w' = None \<and>
           live_blocks w' = live_blocks w \<and>
           open_handles w' = open_handles w"
proof -
  let ?rr = "read_rows (bmp_stride d) (bmp_width d) (bmp_rows d) 0
                 \<lparr>data = d, pos = bmp_offset d\<rparr> (replicate (bmp_plane_size d) None)"
  note v = load_bmp_valid [OF assms(1-7), of vars]
  from assms(11) v have nb: "?rr \<noteq> OutOfBounds" by auto
  have "?rr = ShortRead"
    using read_rows_short_iff [OF nb] assms(8-10) by simp
  then have "load_bmp name vars w =
      Returns (- 1, vars\<lparr>width_out := Some (bmp_width d), height_out := Some (bmp_rows d),
                            image_data_out := Ptr (length (heap w))\<rparr>,
           eprint (CouldNotReadRow name) (w\<lparr>heap := heap w @ [Freed, Freed]\<rparr>))"
    using v by simp
  then show ?thesis
    by (simp add: eprint_fields live_blocks_freed block_cells_def nth_append)
qed

subsection \<open>Bytes the loops do not look at\<close>

lemma load_cell_agree:
  assumes len: "length bgr' = length bgr"
    and agree: "\<And>j. j < length bgr \<Longrightarrow> j < nat (3 * W) \<Longrightarrow> bgr' ! j = bgr ! j"
    and v: "0 \<le> v" "v < 2 ^ 32" "v < 3 * W"
  shows "load_cell bgr' (wrap32 v) = load_cell bgr (wrap32 v)"
proof (cases "v < 2 ^ 31")
  case True
  with v have w: "wrap32 v = v" by (simp add: wrap32_id)
  show ?thesis
  proof (cases "v < int (length bgr)")
    case True
    then have "nat v < length bgr" "nat v < nat (3 * W)" using v by auto
    from agree [OF this] show ?thesis using len True v by (simp add: load_cell_def w)
  next
    case False
    then show ?thesis using len by (simp add: load_cell_def w)
  qed
next
  case False
  with v have "wrap32 v < 0" by (simp add: wrap32_high)
  then show ?thesis by (simp add: load_cell_def)
qed

lemma load_pixel_agree:
  assumes len: "length bgr' = length bgr"
    and agree: "\<And>j. j < length bgr \<Longrightarrow> j < nat (3 * W) \<Longrightarrow> bgr' ! j = bgr ! j"
    and x: "0 \<le> x" "x \<le> 715827883" "x < W"
  shows "load_pixel bgr' x = load_pixel bgr x"
proof -
  have "load_cell bgr' (wrap32 (x * 3 + k)) = load_cell bgr (wrap32 (x * 3 + k))"
    if "0 \<le> k" "k \<le> 2" for k
  proof -
    have "0 \<le> x * 3 + k" "x * 3 + k < 2 ^ 32" "x * 3 + k < 3 * W"
      using that x by simp_all
    then show ?thesis by (intro load_cell_agree [OF len agree])
  qed
  from this [of 0] this [of 1] this [of 2]
  have e: "load_cell bgr' (wrap32 (x * 3 + 0)) = load_cell bgr (wrap32 (x * 3 + 0))"
    "load_cell bgr' (wrap32 (x * 3 + 1)) = load_cell bgr (wrap32 (x * 3 + 1))"
    "load_cell bgr' (wrap32 (x * 3 + 2)) = load_cell bgr (wrap32 (x * 3 + 2))"
    by simp_all
  show ?thesis unfolding load_pixel_def e by (rule refl)
qed

lemma convert_row_agree:
  assumes len: "length bgr' = length bgr"
    and agree: "\<And>j. j < length bgr \<Longrightarrow> j < nat (3 * W) \<Longrightarrow> bgr' ! j = bgr ! j"
  shows "0 \<le> x \<Longrightarrow> x \<le> 715827883 \<Longrightarrow>
         convert_row bgr' base W x plane = convert_row bgr base W x plane"
proof (induction "nat (W - x)" arbitrary: x plane)
  case 0
  then show ?case by (simp add: convert_row_stop)
next
  case (Suc k)
  then have lt: "x < W" and k: "k = nat (W - (x + 1))" by auto
  have px: "load_pixel bgr' x = load_pixel bgr x"
    using Suc.prems lt by (intro load_pixel_agree [OF len agree]) simp_all
  show ?case
  proof (cases "x = 715827883")
    case True
    have "wrap32 (x * 3 + 0) < 0" unfolding True by (simp add: wrap32_def)
    then have "load_pixel bgr x = None" by (simp add: load_pixel_def load_cell_def)
    with px lt show ?thesis by (simp add: convert_row_step)
  next
    case False
    with Suc.prems have "0 \<le> x + 1" "x + 1 \<le> 715827883" by simp_all
    from Suc.hyps(1) [OF k this]
    have "convert_row bgr' base W (x + 1) m = convert_row bgr base W (x + 1) m" for m .
    with px lt show ?thesis by (simp add: convert_row_step split: option.splits)
  qed
qed

lemma read_rows_agree:
  assumes len: "length d' = length d"
    and agree: "\<And>i. i < length d \<Longrightarrow> d' ! i \<noteq> d ! i \<Longrightarrow>
       off \<le> i \<and> 0 < n \<and> nat (3 * W) \<le> (i - off) mod n"
  shows "0 \<le> y \<Longrightarrow>
         read_rows n W H y \<lparr>data = d', pos = off + nat y * n\<rparr> plane =
         read_rows n W H y \<lparr>data = d, pos = off + nat y * n\<rparr> plane"
proof (induction "nat (H - y)" arbitrary: y plane)
  case 0
  then show ?case by (simp add: read_rows_stop)
next
  case (Suc k)
  then have lt: "y < H" and k: "k = nat (H - (y + 1))" by auto
  let ?p = "off + nat y * n"
  show ?case
  proof (cases "n \<le> length d - ?p")
    case False
    then show ?thesis using lt len by (simp add: read_rows_step)
  next
    case True
    let ?b' = "take n (drop ?p d')" and ?b = "take n (drop ?p d)"
    have l: "length ?b' = length ?b" using len by simp
    have a: "?b' ! j = ?b ! j" if "j < length ?b" "j < nat (3 * W)" for j
    proof (rule ccontr)
      assume ne: "?b' ! j \<noteq> ?b ! j"
      from that(1) have j: "j < n" "?p + j < length d" by auto
      with ne len have "d' ! (?p + j) \<noteq> d ! (?p + j)" by simp
      from agree [OF j(2) this] have "nat (3 * W) \<le> (?p + j - off) mod n" by simp
      moreover have "(?p + j - off) mod n = j" using j(1) by simp
      ultimately show False using that(2) by simp
    qed
    have cr: "convert_row ?b' base W 0 plane = convert_row ?b base W 0 plane" for base
      by (rule convert_row_agree [OF l a]) simp_all
    have next_pos: "?p + n = off + nat (y + 1) * n"
      using Suc.prems by (simp add: nat_add_distrib)
    have "read_rows n W H (y + 1) \<lparr>data = d', pos = off + nat (y + 1) * n\<rparr> m =
          read_rows n W H (y + 1) \<lparr>data = d, pos = off + nat (y + 1) * n\<rparr> m" for m
      using Suc.hyps(1) [OF k] Suc.prems by simp
    then show ?thesis using lt True len cr
      by (simp add: read_rows_step next_pos split: option.splits)
  qed
qed

lemma same_header_bytes:
  assumes "same_but_padding d d'" and "i < 54" and "i < length d"
  shows "d' ! i = d ! i"
  using assms by (auto simp: same_but_padding_def is_padding_def)

lemma same_file_header:
  assumes s: "same_but_padding d d'" and l: "14 \<le> length d"
  shows "bmp_magic d' = bmp_magic d" "bmp_offset d' = bmp_offset d"
proof -
  have e: "d' ! i = d ! i" if "i < 14" for i
    using same_header_bytes [OF s, of i] that l by simp
  show "bmp_magic d' = bmp_magic d" "bmp_offset d' = bmp_offset d"
    by (simp_all add: bmp_magic_def bmp_offset_def le16_def le32_def e)
qed

lemma same_info_header:
  assumes s: "same_but_padding d d'" and l: "54 \<le> length d"
  shows "bmp_width d' = bmp_width d" "bmp_height d' = bmp_height d"
    "bmp_depth d' = bmp_depth d" "bmp_compression d' = bmp_compression d"
proof -
  have e: "d' ! i = d ! i" if "i < 54" for i
    using same_header_bytes [OF s, of i] that l by simp
  show "bmp_width d' = bmp_width d" "bmp_height d' = bmp_height d"
    "bmp_depth d' = bmp_depth d" "bmp_compression d' = bmp_compression d"
    by (simp_all add: bmp_width_def bmp_height_def bmp_depth_def bmp_compression_def
        le16_def le32_def e)
qed

lemma same_layout:
  assumes s: "same_but_padding d d'" and l: "54 \<le> length d"
  shows "bmp_rows d' = bmp_rows d" "bmp_stride d' = bmp_stride d"
    "bmp_plane_size d' = bmp_plane_size d"
  by (simp_all add: bmp_rows_def bmp_stride_def bmp_plane_size_def same_info_header [OF s l])

lemma same_rows:
  assumes s: "same_but_padding d d'"
  shows "read_rows (bmp_stride d) (bmp_width d) H 0 \<lparr>data = d', pos = bmp_offset d\<rparr> plane =
         read_rows (bmp_stride d) (bmp_width d) H 0 \<lparr>data = d, pos = bmp_offset d\<rparr> plane"
proof -
  have len: "length d' = length d" using s by (simp add: same_but_padding_def)
  have agree: "bmp_offset d \<le> i \<and> 0 < bmp_stride d \<and>
      nat (3 * bmp_width d) \<le> (i - bmp_offset d) mod bmp_stride d"
    if "i < length d" "d' ! i \<noteq> d ! i" for i
    using s that by (auto simp: same_but_padding_def is_padding_def)
  from read_rows_agree [OF len agree, of 0 H plane] show ?thesis by simp
qed

section \<open>Sample inputs, evaluated\<close>

lemma replicate_4: "replicate 4 x = [x, x, x, x]"
  by (simp add: numeral_eq_Suc)

lemma replicate_2: "replicate 2 x = [x, x]"
  by (simp add: numeral_eq_Suc)

lemmas eval_fields = bmp_magic_def bmp_offset_def bmp_width_def bmp_height_def bmp_depth_def
  bmp_compression_def bmp_rows_def bmp_stride_def bmp_plane_size_def le16_def le32_def s32_def
  wrap32_def size_t_def bmp_header_def

lemmas eval_rows = read_rows.simps convert_row.simps load_pixel_def load_cell_def store_cell_def
  fread_def wrap32_def replicate_4 Let_def luminance_white luminance_black

lemma checkerboard_fields:
  "length checkerboard_bmp = 70" "bmp_magic checkerboard_bmp = 0x4D42"
  "bmp_depth checkerboard_bmp = 24" "bmp_compression checkerboard_bmp = 0"
  "bmp_offset checkerboard_bmp = 54" "bmp_width checkerboard_bmp = 2"
  "bmp_rows checkerboard_bmp = 2" "bmp_stride checkerboard_bmp = 8"
  "bmp_plane_size checkerboard_bmp = 4"
  by (simp_all add: checkerboard_bmp_def eval_fields)

lemma checkerboard_height: "bmp_height checkerboard_bmp = 2"
  by (simp add: checkerboard_bmp_def eval_fields)

lemma checkerboard_pixels:
  "checkerboard_bmp ! 54 = 0" "checkerboard_bmp ! 55 = 0" "checkerboard_bmp ! 56 = 0"
  "checkerboard_bmp ! 57 = 255" "checkerboard_bmp ! 58 = 255" "checkerboard_bmp ! 59 = 255"
  "checkerboard_bmp ! 62 = 255" "checkerboard_bmp ! 63 = 255" "checkerboard_bmp ! 64 = 255"
  "checkerboard_bmp ! 65 = 0" "checkerboard_bmp ! 66 = 0" "checkerboard_bmp ! 67 = 0"
  by (simp_all add: checkerboard_bmp_def bmp_header_def)

lemma checkerboard_rows:
  "read_rows 8 2 2 0 \<lparr>data = checkerboard_bmp, pos = 54\<rparr> (replicate 4 None) =
     RowsDone [Some 255, Some 0, Some 0, Some 255]"
  by (simp add: checkerboard_bmp_def bmp_header_def eval_rows)

lemma checkerboard_run:
  "load_bmp ''checker.bmp'' vars0 (one_file_world ''checker.bmp'' checkerboard_bmp) =
     Returns (0, \<lparr>width_out = Some 2, height_out = Some 2, image_data_out = Ptr 0\<rparr>,
              (one_file_world ''checker.bmp'' checkerboard_bmp)
                \<lparr>heap := [Live [Some 255, Some 0, Some 0, Some 255], Freed]\<rparr>)"
  by (simp add: load_bmp_file [where d = checkerboard_bmp] checkerboard_fields checkerboard_rows
      one_file_world_def vars0_def)

lemma topdown_fields:
  "length topdown_checkerboard_bmp = 70" "bmp_magic topdown_checkerboard_bmp = 0x4D42"
  "bmp_depth topdown_checkerboard_bmp = 24" "bmp_compression topdown_checkerboard_bmp = 0"
  "bmp_offset topdown_checkerboard_bmp = 54" "bmp_width topdown_checkerboard_bmp = 2"
  "bmp_height topdown_checkerboard_bmp = - 2"
  "bmp_rows topdown_checkerboard_bmp = 2" "bmp_stride topdown_checkerboard_bmp = 8"
  "bmp_plane_size topdown_checkerboard_bmp = 4"
  by (simp_all add: topdown_checkerboard_bmp_def eval_fields)

lemma topdown_rows:
  "read_rows 8 2 2 0 \<lparr>data = topdown_checkerboard_bmp, pos = 54\<rparr> (replicate 4 None) =
     RowsDone [Some 0, Some 255, Some 255, Some 0]"
  by (simp add: topdown_checkerboard_bmp_def bmp_header_def eval_rows)

lemma topdown_pixels:
  "topdown_checkerboard_bmp ! 54 = 255" "topdown_checkerboard_bmp ! 55 = 255"
  "topdown_checkerboard_bmp ! 56 = 255" "topdown_checkerboard_bmp ! 57 = 0"
  "topdown_checkerboard_bmp ! 58 = 0" "topdown_checkerboard_bmp ! 59 = 0"
  "topdown_checkerboard_bmp ! 62 = 0" "topdown_checkerboard_bmp ! 63 = 0"
  "topdown_checkerboard_bmp ! 64 = 0" "topdown_checkerboard_bmp ! 65 = 255"
  "topdown_checkerboard_bmp ! 66 = 255" "topdown_checkerboard_bmp ! 67 = 255"
  by (simp_all add: topdown_checkerboard_bmp_def bmp_header_def)

lemma topdown_run:
  "load_bmp ''topdown.bmp'' vars0 (one_file_world ''topdown.bmp'' topdown_checkerboard_bmp) =
     Returns (0, \<lparr>width_out = Some 2, height_out = Some 2, image_data_out = Ptr 0\<rparr>,
              (one_file_world ''topdown.bmp'' topdown_checkerboard_bmp)
                \<lparr>heap := [Live [Some 0, Some 255, Some 255, Some 0], Freed]\<rparr>)"
  by (simp add: load_bmp_file [where d = topdown_checkerboard_bmp] topdown_fields topdown_rows
      one_file_world_def vars0_def)

lemma zero_fields:
  "length zero_height_bmp = 54" "bmp_magic zero_height_bmp = 0x4D42"
  "bmp_depth zero_height_bmp = 24" "bmp_compression zero_height_bmp = 0"
  "bmp_offset zero_height_bmp = 54" "bmp_width zero_height_bmp = 1"
  "bmp_height zero_height_bmp = 0"
  "bmp_rows zero_height_bmp = 0" "bmp_stride zero_height_bmp = 4"
  "bmp_plane_size zero_height_bmp = 0"
  by (simp_all add: zero_height_bmp_def eval_fields)

lemma zero_width_fields:
  "length zero_width_bmp = 54" "bmp_magic zero_width_bmp = 0x4D42"
  "bmp_depth zero_width_bmp = 24" "bmp_compression zero_width_bmp = 0"
  "bmp_offset zero_width_bmp = 54" "bmp_width zero_width_bmp = 0"
  "bmp_height zero_width_bmp = 1"
  "bmp_rows zero_width_bmp = 1" "bmp_stride zero_width_bmp = 0"
  "bmp_plane_size zero_width_bmp = 0"
  by (simp_all add: zero_width_bmp_def eval_fields)

lemma huge_fields:
  "length huge_bmp = 54" "bmp_magic huge_bmp = 0x4D42"
  "bmp_depth huge_bmp = 24" "bmp_compression huge_bmp = 0"
  "bmp_width huge_bmp = 65536" "bmp_rows huge_bmp = 65536"
  by (simp_all add: huge_bmp_def eval_fields)

lemma bad_magic_fields:
  "length bad_magic_bmp = 70" "bmp_magic bad_magic_bmp = 0x4D58"
  by (simp_all add: bad_magic_bmp_def checkerboard_bmp_def eval_fields)

lemma depth8_fields:
  "length depth8_bmp = 70" "bmp_magic depth8_bmp = 0x4D42" "bmp_depth depth8_bmp = 8"
  by (simp_all add: depth8_bmp_def checkerboard_bmp_def eval_fields)

lemma truncated_fields:
  "length truncated_bmp = 58" "bmp_magic truncated_bmp = 0x4D42"
  "bmp_depth truncated_bmp = 24" "bmp_compression truncated_bmp = 0"
  "bmp_offset truncated_bmp = 54" "bmp_width truncated_bmp = 1"
  "bmp_rows truncated_bmp = 2" "bmp_stride truncated_bmp = 4"
  "bmp_plane_size truncated_bmp = 2"
  by (simp_all add: truncated_bmp_def eval_fields)

lemma truncated_rows:
  "read_rows 4 1 2 0 \<lparr>data = truncated_bmp, pos = 54\<rparr> (replicate 2 None) = ShortRead"
  by (simp add: truncated_bmp_def bmp_header_def eval_rows replicate_2)

lemma truncated_run:
  "load_bmp ''t.bmp'' vars0 (one_file_world ''t.bmp'' truncated_bmp) =
     Returns (- 1, \<lparr>width_out = Some 1, height_out = Some 2, image_data_out = Ptr 0\<rparr>,
       (one_file_world ''t.bmp'' truncated_bmp)
         \<lparr>heap := [Freed, Freed], stderr := [CouldNotReadRow ''t.bmp'']\<rparr>)"
  by (simp add: load_bmp_file [where d = truncated_bmp] truncated_fields truncated_rows
      one_file_world_def vars0_def eprint_def)

lemma overflow_fields:
  "length overflow_bmp = 66" "bmp_magic overflow_bmp = 0x4D42"
  "bmp_depth overflow_bmp = 24" "bmp_compression overflow_bmp = 0"
  "bmp_offset overflow_bmp = 54" "bmp_width overflow_bmp = 4"
  "bmp_height overflow_bmp = 2 ^ 30"
  "bmp_rows overflow_bmp = 2 ^ 30" "bmp_stride overflow_bmp = 12"
  "bmp_plane_size overflow_bmp = 0"
  by (simp_all add: overflow_bmp_def eval_fields)

lemma overflow_rows:
  "read_rows 12 4 (2 ^ 30) 0 \<lparr>data = overflow_bmp, pos = 54\<rparr> [] = OutOfBounds"
  by (simp add: overflow_bmp_def bmp_header_def read_rows.simps [of _ _ _ 0]
      convert_row.simps [of _ _ _ 0] load_pixel_def load_cell_def store_cell_def
      fread_def wrap32_def Let_def)

lemma overflow_run:
  "load_bmp ''o.bmp'' vars0 (one_file_world ''o.bmp'' overflow_bmp) = Undefined"
  using overflow_rows
  by (simp add: load_bmp_file [where d = overflow_bmp] overflow_fields
      one_file_world_def vars0_def)

lemma overflow_dimensions: "\<not> dimensions_in_range overflow_bmp"
  by (simp add: dimensions_in_range_def overflow_fields)

lemma repadded_same: "same_but_padding checkerboard_bmp repadded_checkerboard_bmp"
proof -
  have diff: "i = 60 \<or> i = 61 \<or> i = 68 \<or> i = 69"
    if "repadded_checkerboard_bmp ! i \<noteq> checkerboard_bmp ! i" for i
    using that by (cases "i = 60 \<or> i = 61 \<or> i = 68 \<or> i = 69")
      (auto simp: repadded_checkerboard_bmp_def)
  have pad: "is_padding checkerboard_bmp 60" "is_padding checkerboard_bmp 61"
    "is_padding checkerboard_bmp 68" "is_padding checkerboard_bmp 69"
    by (simp_all add: is_padding_def checkerboard_fields)
  show ?thesis
    using diff pad by (auto simp: same_but_padding_def repadded_checkerboard_bmp_def)
qed

lemma sample_dimensions:
  "dimensions_in_range checkerboard_bmp" "dimensions_in_range bad_magic_bmp"
  "dimensions_in_range depth8_bmp" "dimensions_in_range truncated_bmp"
  by (simp_all add: dimensions_in_range_def bad_magic_bmp_def depth8_bmp_def checkerboard_bmp_def
      truncated_bmp_def eval_fields)

section \<open>The claims\<close>

subsection \<open>C1: row order and the sign of the height\<close>

text \<open>
  Claim C1 (what the code does instead). First part, the failing input: the checkerboard
  stored bottom-up (height 2) is loaded as 255, 0, 0, 255, and the same picture stored
  top-down (height \<open>-2\<close>, the top row white, black first in the file) is loaded as
  0, 255, 255, 0, upside down: the two planes differ. Second part: for every file with a
  negative height that passes the checks and whose dimensions are in range, the load
  succeeds with the magnitude of the height, and stored row \<open>y\<close> is row \<open>H - 1 - y\<close> of the
  plane, not row \<open>y\<close>: line 124 does not look at the sign of the height.
\<close>

theorem top_down_rows_are_reversed:
  "(bmp_height checkerboard_bmp = 2 \<and> bmp_height topdown_checkerboard_bmp = - 2 \<and>
    load_bmp ''checker.bmp'' vars0 (one_file_world ''checker.bmp'' checkerboard_bmp) =
      Returns (0, \<lparr>width_out = Some 2, height_out = Some 2, image_data_out = Ptr 0\<rparr>,
               (one_file_world ''checker.bmp'' checkerboard_bmp)
                 \<lparr>heap := [Live [Some 255, Some 0, Some 0, Some 255], Freed]\<rparr>) \<and>
    load_bmp ''topdown.bmp'' vars0 (one_file_world ''topdown.bmp'' topdown_checkerboard_bmp) =
      Returns (0, \<lparr>width_out = Some 2, height_out = Some 2, image_data_out = Ptr 0\<rparr>,
               (one_file_world ''topdown.bmp'' topdown_checkerboard_bmp)
                 \<lparr>heap := [Live [Some 0, Some 255, Some 255, Some 0], Freed]\<rparr>)) \<and>
   (files w name = Some d \<and> 54 \<le> length d \<and> bmp_magic d = 0x4D42 \<and> bmp_depth d = 24 \<and>
    bmp_compression d = 0 \<and> 0 < bmp_width d \<and> 3 * bmp_width d + 3 < 2 ^ 31 \<and>
    bmp_height d < 0 \<and> bmp_width d * (- bmp_height d) < 2 ^ 31 \<and>
    malloc_ok w (length (heap w)) (bmp_plane_size d) \<and>
    malloc_ok w (Suc (length (heap w))) (bmp_stride d) \<and>
    bmp_offset d + nat (- bmp_height d) * bmp_stride d \<le> length d \<longrightarrow>
      (\<exists>plane. load_bmp name vars w =
           Returns (0, vars\<lparr>width_out := Some (bmp_width d), height_out := Some (- bmp_height d),
                            image_data_out := Ptr (length (heap w))\<rparr>,
                    w\<lparr>heap := heap w @ [Live plane, Freed]\<rparr>) \<and>
         length plane = nat (bmp_width d) * nat (- bmp_height d) \<and>
         (\<forall>y<nat (- bmp_height d). \<forall>x<nat (bmp_width d).
            plane ! ((nat (- bmp_height d) - 1 - y) * nat (bmp_width d) + x)
              = Some (luminance (d ! (bmp_offset d + y * bmp_stride d + 3 * x + 2))
                                (d ! (bmp_offset d + y * bmp_stride d + 3 * x + 1))
                                (d ! (bmp_offset d + y * bmp_stride d + 3 * x))))))"
proof (intro conjI impI)
  show "bmp_height checkerboard_bmp = 2" by (rule checkerboard_height)
  show "bmp_height topdown_checkerboard_bmp = - 2" by (rule topdown_fields)
  show "load_bmp ''checker.bmp'' vars0 (one_file_world ''checker.bmp'' checkerboard_bmp) =
      Returns (0, \<lparr>width_out = Some 2, height_out = Some 2, image_data_out = Ptr 0\<rparr>,
               (one_file_world ''checker.bmp'' checkerboard_bmp)
                 \<lparr>heap := [Live [Some 255, Some 0, Some 0, Some 255], Freed]\<rparr>)"
    by (rule checkerboard_run)
  show "load_bmp ''topdown.bmp'' vars0 (one_file_world ''topdown.bmp'' topdown_checkerboard_bmp) =
      Returns (0, \<lparr>width_out = Some 2, height_out = Some 2, image_data_out = Ptr 0\<rparr>,
               (one_file_world ''topdown.bmp'' topdown_checkerboard_bmp)
                 \<lparr>heap := [Live [Some 0, Some 255, Some 255, Some 0], Freed]\<rparr>)"
    by (rule topdown_run)
next
  assume a: "files w name = Some d \<and> 54 \<le> length d \<and> bmp_magic d = 0x4D42 \<and> bmp_depth d = 24 \<and>
    bmp_compression d = 0 \<and> 0 < bmp_width d \<and> 3 * bmp_width d + 3 < 2 ^ 31 \<and>
    bmp_height d < 0 \<and> bmp_width d * (- bmp_height d) < 2 ^ 31 \<and>
    malloc_ok w (length (heap w)) (bmp_plane_size d) \<and>
    malloc_ok w (Suc (length (heap w))) (bmp_stride d) \<and>
    bmp_offset d + nat (- bmp_height d) * bmp_stride d \<le> length d"
  then have W: "0 < bmp_width d" "3 * bmp_width d + 3 < 2 ^ 31"
    and h: "bmp_height d < 0" and p: "bmp_width d * (- bmp_height d) < 2 ^ 31" by simp_all
  have "1 * (- bmp_height d) \<le> bmp_width d * (- bmp_height d)"
    using W(1) h by (intro mult_right_mono) simp_all
  with p have "- bmp_height d < 2 ^ 31" by simp
  with h have "wrap32 (- bmp_height d) = - bmp_height d" by (intro wrap32_id) simp_all
  with h have r: "bmp_rows d = - bmp_height d" by (simp add: bmp_rows_def)
  from a have f: "files w name = Some d"
    and hdr: "54 \<le> length d" "bmp_magic d = 0x4D42" "bmp_depth d = 24" "bmp_compression d = 0"
    and m: "malloc_ok w (length (heap w)) (bmp_plane_size d)"
      "malloc_ok w (Suc (length (heap w))) (bmp_stride d)"
    by simp_all
  from a r have H: "0 < bmp_rows d" "bmp_width d * bmp_rows d < 2 ^ 31"
    "bmp_offset d + nat (bmp_rows d) * bmp_stride d \<le> length d"
    by simp_all
  note load_bmp_layout [OF f hdr W H(1,2) m H(3), of vars]
  then show "\<exists>plane. load_bmp name vars w =
           Returns (0, vars\<lparr>width_out := Some (bmp_width d), height_out := Some (- bmp_height d),
                            image_data_out := Ptr (length (heap w))\<rparr>,
                    w\<lparr>heap := heap w @ [Live plane, Freed]\<rparr>) \<and>
         length plane = nat (bmp_width d) * nat (- bmp_height d) \<and>
         (\<forall>y<nat (- bmp_height d). \<forall>x<nat (bmp_width d).
            plane ! ((nat (- bmp_height d) - 1 - y) * nat (bmp_width d) + x)
              = Some (luminance (d ! (bmp_offset d + y * bmp_stride d + 3 * x + 2))
                                (d ! (bmp_offset d + y * bmp_stride d + 3 * x + 1))
                                (d ! (bmp_offset d + y * bmp_stride d + 3 * x))))"
    unfolding r pixel_luminance_def stored_luminance_def .
qed

theorem top_down_rows_are_reversed_witness:
  "files (one_file_world ''topdown.bmp'' topdown_checkerboard_bmp) ''topdown.bmp''
     = Some topdown_checkerboard_bmp \<and>
   54 \<le> length topdown_checkerboard_bmp \<and> bmp_magic topdown_checkerboard_bmp = 0x4D42 \<and>
   bmp_depth topdown_checkerboard_bmp = 24 \<and> bmp_compression topdown_checkerboard_bmp = 0 \<and>
   0 < bmp_width topdown_checkerboard_bmp \<and> 3 * bmp_width topdown_checkerboard_bmp + 3 < 2 ^ 31 \<and>
   bmp_height topdown_checkerboard_bmp < 0 \<and>
   bmp_width topdown_checkerboard_bmp * (- bmp_height topdown_checkerboard_bmp) < 2 ^ 31 \<and>
   malloc_ok (one_file_world ''topdown.bmp'' topdown_checkerboard_bmp)
     (length (heap (one_file_world ''topdown.bmp'' topdown_checkerboard_bmp)))
     (bmp_plane_size topdown_checkerboard_bmp) \<and>
   malloc_ok (one_file_world ''topdown.bmp'' topdown_checkerboard_bmp)
     (Suc (length (heap (one_file_world ''topdown.bmp'' topdown_checkerboard_bmp))))
     (bmp_stride topdown_checkerboard_bmp) \<and>
   bmp_offset topdown_checkerboard_bmp
     + nat (- bmp_height topdown_checkerboard_bmp) * bmp_stride topdown_checkerboard_bmp
     \<le> length topdown_checkerboard_bmp \<and>
   (\<exists>plane. load_bmp ''topdown.bmp'' vars0 (one_file_world ''topdown.bmp'' topdown_checkerboard_bmp) =
      Returns (0, \<lparr>width_out = Some 2, height_out = Some 2, image_data_out = Ptr 0\<rparr>,
               (one_file_world ''topdown.bmp'' topdown_checkerboard_bmp)\<lparr>heap := [Live plane, Freed]\<rparr>) \<and>
      plane = [Some 0, Some 255, Some 255, Some 0])"
proof -
  let ?w = "one_file_world ''topdown.bmp'' topdown_checkerboard_bmp"
  let ?d = topdown_checkerboard_bmp
  note fields = topdown_fields
  have hyp: "files ?w ''topdown.bmp'' = Some ?d \<and> 54 \<le> length ?d \<and> bmp_magic ?d = 0x4D42 \<and>
    bmp_depth ?d = 24 \<and> bmp_compression ?d = 0 \<and> 0 < bmp_width ?d \<and>
    3 * bmp_width ?d + 3 < 2 ^ 31 \<and> bmp_height ?d < 0 \<and>
    bmp_width ?d * (- bmp_height ?d) < 2 ^ 31 \<and>
    malloc_ok ?w (length (heap ?w)) (bmp_plane_size ?d) \<and>
    malloc_ok ?w (Suc (length (heap ?w))) (bmp_stride ?d) \<and>
    bmp_offset ?d + nat (- bmp_height ?d) * bmp_stride ?d \<le> length ?d"
    by (simp add: one_file_world_def fields)
  from top_down_rows_are_reversed [where w = ?w and name = "''topdown.bmp''" and vars = vars0 and d = ?d] hyp
  obtain plane where
    run: "load_bmp ''topdown.bmp'' vars0 ?w =
       Returns (0, vars0\<lparr>width_out := Some (bmp_width ?d), height_out := Some (- bmp_height ?d),
                          image_data_out := Ptr (length (heap ?w))\<rparr>,
                ?w\<lparr>heap := heap ?w @ [Live plane, Freed]\<rparr>)" and
    len: "length plane = nat (bmp_width ?d) * nat (- bmp_height ?d)" and
    cells: "\<forall>y<nat (- bmp_height ?d). \<forall>x<nat (bmp_width ?d).
       plane ! ((nat (- bmp_height ?d) - 1 - y) * nat (bmp_width ?d) + x)
         = Some (luminance (?d ! (bmp_offset ?d + y * bmp_stride ?d + 3 * x + 2))
                           (?d ! (bmp_offset ?d + y * bmp_stride ?d + 3 * x + 1))
                           (?d ! (bmp_offset ?d + y * bmp_stride ?d + 3 * x)))"
    by blast
  have l4: "length plane = 4" using len by (simp add: fields)
  have p: "plane ! 0 = Some 0" "plane ! 1 = Some 255" "plane ! 2 = Some 255" "plane ! 3 = Some 0"
    using cells [rule_format, of 1 0] cells [rule_format, of 1 1]
      cells [rule_format, of 0 0] cells [rule_format, of 0 1]
    by (simp_all add: fields topdown_pixels luminance_white luminance_black)
  have "plane = [Some 0, Some 255, Some 255, Some 0]"
  proof (rule nth_equalityI)
    show "length plane = length [Some 0, Some 255, Some 255, Some (0::byte)]" using l4 by simp
    fix i
    assume "i < length plane"
    then have "i = 0 \<or> i = 1 \<or> i = 2 \<or> i = 3" using l4 by auto
    then show "plane ! i = [Some 0, Some 255, Some 255, Some 0] ! i" using p by auto
  qed
  moreover from run have "load_bmp ''topdown.bmp'' vars0 ?w =
      Returns (0, \<lparr>width_out = Some 2, height_out = Some 2, image_data_out = Ptr 0\<rparr>,
               ?w\<lparr>heap := [Live plane, Freed]\<rparr>)"
    by (simp add: fields vars0_def one_file_world_def)
  ultimately show ?thesis using hyp by blast
qed

subsection \<open>C2: dimensions after a successful load\<close>

text \<open>
  Claim C2, as stated, fails. A header-only file of width 1 and height 0, and one of width
  0 and height 1, are both loaded with return value 0 (the allocator hands out a block
  for a request of 0 bytes, as the usual C libraries do): the function has no check on
  the width or the height.
\<close>

theorem empty_images_are_loaded:
  "bmp_width zero_height_bmp = 1 \<and> bmp_height zero_height_bmp = 0 \<and>
   load_bmp ''h0.bmp'' vars0 (one_file_world ''h0.bmp'' zero_height_bmp) =
     Returns (0, \<lparr>width_out = Some 1, height_out = Some 0, image_data_out = Ptr 0\<rparr>,
              (one_file_world ''h0.bmp'' zero_height_bmp)\<lparr>heap := [Live [], Freed]\<rparr>) \<and>
   bmp_width zero_width_bmp = 0 \<and> bmp_height zero_width_bmp = 1 \<and>
   load_bmp ''w0.bmp'' vars0 (one_file_world ''w0.bmp'' zero_width_bmp) =
     Returns (0, \<lparr>width_out = Some 0, height_out = Some 1, image_data_out = Ptr 0\<rparr>,
              (one_file_world ''w0.bmp'' zero_width_bmp)\<lparr>heap := [Live [], Freed]\<rparr>)"
  by (simp add: load_bmp_file [where d = zero_height_bmp] load_bmp_file [where d = zero_width_bmp]
      zero_fields zero_width_fields one_file_world_def vars0_def read_rows.simps convert_row.simps
      fread_def Let_def)

text \<open>
  Claim C2, amended. \<^verbatim>\<open>load_bmp\<close> does not look at the sign of the width or at a zero
  height. After every successful load the returned width is the declared width, the
  returned height is the (wrapped) magnitude of the declared height, and the plane has as
  many bytes as were requested, the wrapped product of the two as a \<^verbatim>\<open>size_t\<close>. When the
  declared width is strictly positive, the declared height is neither 0 nor \<open>- 2 ^ 31\<close>
  and width times magnitude of the height is at most \<open>2 ^ 31 - 1\<close>, both returned
  dimensions are strictly positive and the plane's length is width times height.
\<close>

theorem successful_load_dimensions:
  assumes "load_bmp name vars w = Returns (0, vars', w')"
  shows "\<exists>d plane. files w name = Some d \<and>
           width_out vars' = Some (bmp_width d) \<and> height_out vars' = Some (bmp_rows d) \<and>
           block_cells (image_data_out vars') w' = Some plane \<and>
           length plane = size_t (wrap32 (bmp_width d * bmp_rows d)) \<and>
           (0 < bmp_width d \<and> bmp_height d \<noteq> 0 \<and> bmp_height d \<noteq> - (2 ^ 31) \<and>
            bmp_width d * \<bar>bmp_height d\<bar> \<le> 2 ^ 31 - 1 \<longrightarrow>
              0 < bmp_width d \<and> 0 < bmp_rows d \<and> bmp_rows d = \<bar>bmp_height d\<bar> \<and>
              length plane = nat (bmp_width d * bmp_rows d))"
proof -
  from load_bmp_success [OF assms] obtain d plane where
    f: "files w name = Some d" and
    rr: "read_rows (bmp_stride d) (bmp_width d) (bmp_rows d) 0
           \<lparr>data = d, pos = bmp_offset d\<rparr> (replicate (bmp_plane_size d) None) = RowsDone plane" and
    v: "vars' = vars\<lparr>width_out := Some (bmp_width d), height_out := Some (bmp_rows d),
                      image_data_out := Ptr (length (heap w))\<rparr>" and
    w: "w' = w\<lparr>heap := heap w @ [Live plane, Freed]\<rparr>"
    by blast
  have len: "length plane = size_t (wrap32 (bmp_width d * bmp_rows d))"
    using read_rows_length [OF rr] by (simp add: bmp_plane_size_def)
  have cells: "block_cells (image_data_out vars') w' = Some plane"
    by (simp add: v w block_cells_new)
  have sane: "0 < bmp_rows d \<and> bmp_rows d = \<bar>bmp_height d\<bar> \<and>
      length plane = nat (bmp_width d * bmp_rows d)"
    if a: "0 < bmp_width d" "bmp_height d \<noteq> 0" "bmp_height d \<noteq> - (2 ^ 31)"
      "bmp_width d * \<bar>bmp_height d\<bar> \<le> 2 ^ 31 - 1"
  proof -
    have r: "bmp_rows d = \<bar>bmp_height d\<bar>" using a(3) by (rule bmp_rows_abs)
    have pos: "0 < bmp_rows d" using a(2) r by simp
    have "0 \<le> bmp_width d * bmp_rows d" using a(1) pos by simp
    then have "size_t (wrap32 (bmp_width d * bmp_rows d)) = nat (bmp_width d * bmp_rows d)"
      using a(4) r by (intro plane_request_fits) simp_all
    with len r pos show ?thesis by simp
  qed
  from f v cells len sane show ?thesis by auto
qed

theorem successful_load_dimensions_witness:
  "load_bmp ''checker.bmp'' vars0 (one_file_world ''checker.bmp'' checkerboard_bmp) =
     Returns (0, \<lparr>width_out = Some 2, height_out = Some 2, image_data_out = Ptr 0\<rparr>,
              (one_file_world ''checker.bmp'' checkerboard_bmp)
                \<lparr>heap := [Live [Some 255, Some 0, Some 0, Some 255], Freed]\<rparr>) \<and>
   (\<exists>d plane. files (one_file_world ''checker.bmp'' checkerboard_bmp) ''checker.bmp'' = Some d \<and>
      0 < bmp_width d \<and> bmp_height d \<noteq> 0 \<and> bmp_height d \<noteq> - (2 ^ 31) \<and>
      bmp_width d * \<bar>bmp_height d\<bar> \<le> 2 ^ 31 - 1 \<and>
      block_cells (Ptr 0) ((one_file_world ''checker.bmp'' checkerboard_bmp)
                \<lparr>heap := [Live [Some 255, Some 0, Some 0, Some 255], Freed]\<rparr>) = Some plane \<and>
      length plane = nat (bmp_width d * bmp_rows d))"
proof -
  let ?w = "one_file_world ''checker.bmp'' checkerboard_bmp"
  let ?w' = "?w\<lparr>heap := [Live [Some 255, Some 0, Some 0, Some 255], Freed]\<rparr>"
  let ?v' = "\<lparr>width_out = Some 2, height_out = Some 2, image_data_out = Ptr 0\<rparr>"
  have run: "load_bmp ''checker.bmp'' vars0 ?w = Returns (0, ?v', ?w')"
    by (simp add: load_bmp_file [where d = checkerboard_bmp] checkerboard_fields checkerboard_rows
        one_file_world_def vars0_def)
  have h: "bmp_height checkerboard_bmp = 2"
    by (simp add: checkerboard_bmp_def eval_fields)
  from successful_load_dimensions [OF run] obtain d plane where
    "files ?w ''checker.bmp'' = Some d"
    "block_cells (image_data_out ?v') ?w' = Some plane"
    "0 < bmp_width d \<and> bmp_height d \<noteq> 0 \<and> bmp_height d \<noteq> - (2 ^ 31) \<and>
            bmp_width d * \<bar>bmp_height d\<bar> \<le> 2 ^ 31 - 1 \<longrightarrow>
              0 < bmp_width d \<and> 0 < bmp_rows d \<and> bmp_rows d = \<bar>bmp_height d\<bar> \<and>
              length plane = nat (bmp_width d * bmp_rows d)"
    by blast
  moreover from this(1) have "d = checkerboard_bmp" by (simp add: one_file_world_def)
  ultimately show ?thesis using run h
    by (intro conjI exI [of _ checkerboard_bmp] exI [of _ plane]) (simp_all add: checkerboard_fields)
qed

subsection \<open>C3: the luminance byte\<close>

text \<open>
  Claim C3. The sum of line 131 is the double precision value of
  \<open>0.299 * r + 0.587 * g + 0.114 * b\<close>: the three constants are the doubles nearest to the
  decimals, each product and each sum is rounded to the nearest double (ties to even),
  from left to right, and the result is within \<open>2 ^ -41\<close> of the exact weighted sum. For
  all channel bytes it lies in \<open>[0, 256)\<close>, so its conversion to \<^verbatim>\<open>uint8_t\<close> is the sum
  truncated toward zero, a value between 0 and 255, and nothing wraps around. In integer
  terms the byte is the quotient of \<open>299 r + 587 g + 114 b\<close> by 1000, or one less than the
  quotient when the division is exact and the rounded sum falls below it, as for green 72
  and blue 24 (44, where the exact sum is 45). That byte is what the loop over the
  columns stores: a row of one pixel \<open>b, g, r\<close> gives the plane cell \<open>luminance r g b\<close>.
\<close>

theorem luminance_is_truncated_sum:
  "lum_sum r g b =
     round_double (round_double (round_double (round_double (299 / 1000) * of_nat (unat r))
                                 + round_double (round_double (587 / 1000) * of_nat (unat g)))
                   + round_double (round_double (114 / 1000) * of_nat (unat b))) \<and>
   round_double (299 / 1000) = 5386305154335113 / 2 ^ 54 \<and>
   round_double (587 / 1000) = 2643612981266481 / 2 ^ 52 \<and>
   round_double (114 / 1000) = 8214565720323785 / 2 ^ 56 \<and>
   round_double (1 + 1 / 2 ^ 53) = 1 \<and> round_double (1 + 3 / 2 ^ 53) = 1 + 1 / 2 ^ 51 \<and>
   \<bar>lum_sum r g b
      - (299 * of_nat (unat r) + 587 * of_nat (unat g) + 114 * of_nat (unat b)) / 1000\<bar>
     \<le> 1 / 2 ^ 41 \<and>
   0 \<le> lum_sum r g b \<and> lum_sum r g b < 256 \<and>
   trunc_int (lum_sum r g b) = \<lfloor>lum_sum r g b\<rfloor> \<and>
   0 \<le> trunc_int (lum_sum r g b) \<and> trunc_int (lum_sum r g b) \<le> 255 \<and>
   int (unat (luminance r g b)) = trunc_int (lum_sum r g b) \<and>
   (trunc_int (lum_sum r g b)
      = (299 * int (unat r) + 587 * int (unat g) + 114 * int (unat b)) div 1000 \<or>
    ((299 * int (unat r) + 587 * int (unat g) + 114 * int (unat b)) mod 1000 = 0 \<and>
     trunc_int (lum_sum r g b)
       = (299 * int (unat r) + 587 * int (unat g) + 114 * int (unat b)) div 1000 - 1)) \<and>
   convert_row [b, g, r] 0 1 0 [c] = Some [Some (luminance r g b)] \<and>
   luminance 255 255 255 = 255 \<and> luminance 0 0 0 = 0 \<and> luminance 255 0 0 = 76 \<and>
   luminance 0 72 24 = 44"
proof -
  have str: "lum_sum r g b =
     round_double (round_double (round_double (round_double (299 / 1000) * of_nat (unat r))
                                 + round_double (round_double (587 / 1000) * of_nat (unat g)))
                   + round_double (round_double (114 / 1000) * of_nat (unat b)))"
    unfolding lum_sum_def fadd_def fmul_def by (rule refl)
  from lum_sum_range [of r g b] have s: "0 \<le> lum_sum r g b" "lum_sum r g b < 256" by simp_all
  then have t: "trunc_int (lum_sum r g b) = \<lfloor>lum_sum r g b\<rfloor>" by (simp add: trunc_int_def)
  have f: "0 \<le> \<lfloor>lum_sum r g b\<rfloor>" "\<lfloor>lum_sum r g b\<rfloor> < 256"
    using s by (simp_all add: floor_less_iff)
  then have "take_bit 8 \<lfloor>lum_sum r g b\<rfloor> = \<lfloor>lum_sum r g b\<rfloor>"
    by (intro take_bit_int_eq_self) simp_all
  then have u: "int (unat (luminance r g b)) = trunc_int (lum_sum r g b)"
    using f by (simp add: luminance_def t unsigned_of_int)
  have tr: "0 \<le> trunc_int (lum_sum r g b)" "trunc_int (lum_sum r g b) \<le> 255"
    using f t by simp_all
  have v: "luminance 0 72 24 = 44" using luminance_rounds_below by (rule conjunct1)
  show ?thesis
    by (intro conjI str coefficients round_double_samples(2,3) lum_sum_near s t tr u
        luminance_quotient single_pixel luminance_white luminance_black luminance_red v)
qed

theorem luminance_is_truncated_sum_witness:
  "convert_row [24, 72, 0] 0 1 0 [None] = Some [Some 44] \<and>
   trunc_int (lum_sum 0 72 24) = 44 \<and>
   (299 * int (unat (0::byte)) + 587 * int (unat (72::byte)) + 114 * int (unat (24::byte))) mod 1000 = 0 \<and>
   (299 * int (unat (0::byte)) + 587 * int (unat (72::byte)) + 114 * int (unat (24::byte))) div 1000 = 45 \<and>
   convert_row [0, 0, 255] 0 1 0 [None] = Some [Some 76] \<and>
   trunc_int (lum_sum 255 0 0) = 76 \<and>
   (299 * int (unat (255::byte)) + 587 * int (unat (0::byte)) + 114 * int (unat (0::byte))) div 1000 = 76"
proof -
  note a = luminance_is_truncated_sum [of 0 72 24 None]
  note b = luminance_is_truncated_sum [of 255 0 0 None]
  have a1: "luminance 0 72 24 = 44" and b1: "luminance 255 0 0 = 76" using a by simp_all
  have "convert_row [24, 72, 0] 0 1 0 [None] = Some [Some 44]" using a a1 by simp
  moreover have "trunc_int (lum_sum 0 72 24) = 44"
  proof -
    from a have "int (unat (luminance 0 72 24)) = trunc_int (lum_sum 0 72 24)" by (elim conjE)
    then show ?thesis unfolding a1 by simp
  qed
  moreover have "convert_row [0, 0, 255] 0 1 0 [None] = Some [Some 76]" using b b1 by simp
  moreover have "trunc_int (lum_sum 255 0 0) = 76"
  proof -
    from b have "int (unat (luminance 255 0 0)) = trunc_int (lum_sum 255 0 0)" by (elim conjE)
    then show ?thesis unfolding b1 by simp
  qed
  ultimately show ?thesis by simp
qed

subsection \<open>C4: the bottom-up checkerboard\<close>

text \<open>
  Claim C4. First part: the 2 by 2 bottom-up checkerboard whose stored rows are black,
  white and then white, black (each row padded to 8 bytes) loads, in every world that
  holds the file and grants both allocations, with return value 0, width 2, height 2 and
  the top-down plane 255, 0, 0, 255. Second part: for every bottom-up file (positive
  height) that passes the checks and whose dimensions are in range, the load succeeds and
  the plane cell of row \<open>H - 1 - y\<close> and column \<open>x\<close> holds the luminance of the three bytes
  at offset \<open>3 * x\<close> of stored row \<open>y\<close>, taken as blue, green, red.
\<close>

theorem bottom_up_rows:
  "(files w name = Some checkerboard_bmp \<and> malloc_ok w (length (heap w)) 4 \<and>
    malloc_ok w (Suc (length (heap w))) 8 \<longrightarrow>
      load_bmp name vars w =
        Returns (0, vars\<lparr>width_out := Some 2, height_out := Some 2,
                         image_data_out := Ptr (length (heap w))\<rparr>,
                 w\<lparr>heap := heap w @ [Live [Some 255, Some 0, Some 0, Some 255], Freed]\<rparr>)) \<and>
   (files w name = Some d \<and> 54 \<le> length d \<and> bmp_magic d = 0x4D42 \<and> bmp_depth d = 24 \<and>
    bmp_compression d = 0 \<and> 0 < bmp_width d \<and> 3 * bmp_width d + 3 < 2 ^ 31 \<and>
    0 < bmp_height d \<and> bmp_width d * bmp_height d < 2 ^ 31 \<and>
    malloc_ok w (length (heap w)) (bmp_plane_size d) \<and>
    malloc_ok w (Suc (length (heap w))) (bmp_stride d) \<and>
    bmp_offset d + nat (bmp_height d) * bmp_stride d \<le> length d \<longrightarrow>
      (\<exists>plane. load_bmp name vars w =
           Returns (0, vars\<lparr>width_out := Some (bmp_width d), height_out := Some (bmp_height d),
                            image_data_out := Ptr (length (heap w))\<rparr>,
                    w\<lparr>heap := heap w @ [Live plane, Freed]\<rparr>) \<and>
         length plane = nat (bmp_width d) * nat (bmp_height d) \<and>
         (\<forall>y<nat (bmp_height d). \<forall>x<nat (bmp_width d).
            plane ! ((nat (bmp_height d) - 1 - y) * nat (bmp_width d) + x)
              = Some (luminance (d ! (bmp_offset d + y * bmp_stride d + 3 * x + 2))
                                (d ! (bmp_offset d + y * bmp_stride d + 3 * x + 1))
                                (d ! (bmp_offset d + y * bmp_stride d + 3 * x))))))"
proof (intro conjI impI)
  assume "files w name = Some checkerboard_bmp \<and> malloc_ok w (length (heap w)) 4 \<and>
    malloc_ok w (Suc (length (heap w))) 8"
  then show "load_bmp name vars w =
        Returns (0, vars\<lparr>width_out := Some 2, height_out := Some 2,
                         image_data_out := Ptr (length (heap w))\<rparr>,
                 w\<lparr>heap := heap w @ [Live [Some 255, Some 0, Some 0, Some 255], Freed]\<rparr>)"
    by (simp add: load_bmp_file checkerboard_fields checkerboard_rows)
next
  assume a: "files w name = Some d \<and> 54 \<le> length d \<and> bmp_magic d = 0x4D42 \<and> bmp_depth d = 24 \<and>
    bmp_compression d = 0 \<and> 0 < bmp_width d \<and> 3 * bmp_width d + 3 < 2 ^ 31 \<and>
    0 < bmp_height d \<and> bmp_width d * bmp_height d < 2 ^ 31 \<and>
    malloc_ok w (length (heap w)) (bmp_plane_size d) \<and>
    malloc_ok w (Suc (length (heap w))) (bmp_stride d) \<and>
    bmp_offset d + nat (bmp_height d) * bmp_stride d \<le> length d"
  then have r: "bmp_rows d = bmp_height d" by (simp add: bmp_rows_def)
  from a have f: "files w name = Some d"
    and hdr: "54 \<le> length d" "bmp_magic d = 0x4D42" "bmp_depth d = 24" "bmp_compression d = 0"
    and W: "0 < bmp_width d" "3 * bmp_width d + 3 < 2 ^ 31"
    and m: "malloc_ok w (length (heap w)) (bmp_plane_size d)"
      "malloc_ok w (Suc (length (heap w))) (bmp_stride d)"
    by simp_all
  from a r have H: "0 < bmp_rows d" "bmp_width d * bmp_rows d < 2 ^ 31"
    "bmp_offset d + nat (bmp_rows d) * bmp_stride d \<le> length d"
    by simp_all
  note load_bmp_layout [OF f hdr W H(1,2) m H(3), of vars]
  then show "\<exists>plane. load_bmp name vars w =
           Returns (0, vars\<lparr>width_out := Some (bmp_width d), height_out := Some (bmp_height d),
                            image_data_out := Ptr (length (heap w))\<rparr>,
                    w\<lparr>heap := heap w @ [Live plane, Freed]\<rparr>) \<and>
         length plane = nat (bmp_width d) * nat (bmp_height d) \<and>
         (\<forall>y<nat (bmp_height d). \<forall>x<nat (bmp_width d).
            plane ! ((nat (bmp_height d) - 1 - y) * nat (bmp_width d) + x)
              = Some (luminance (d ! (bmp_offset d + y * bmp_stride d + 3 * x + 2))
                                (d ! (bmp_offset d + y * bmp_stride d + 3 * x + 1))
                                (d ! (bmp_offset d + y * bmp_stride d + 3 * x))))"
    unfolding r pixel_luminance_def stored_luminance_def .
qed

theorem bottom_up_rows_witness:
  "files (one_file_world ''checker.bmp'' checkerboard_bmp) ''checker.bmp'' = Some checkerboard_bmp \<and>
   54 \<le> length checkerboard_bmp \<and> bmp_magic checkerboard_bmp = 0x4D42 \<and>
   bmp_depth checkerboard_bmp = 24 \<and> bmp_compression checkerboard_bmp = 0 \<and>
   0 < bmp_width checkerboard_bmp \<and> 3 * bmp_width checkerboard_bmp + 3 < 2 ^ 31 \<and>
   0 < bmp_height checkerboard_bmp \<and>
   bmp_width checkerboard_bmp * bmp_height checkerboard_bmp < 2 ^ 31 \<and>
   malloc_ok (one_file_world ''checker.bmp'' checkerboard_bmp)
     (length (heap (one_file_world ''checker.bmp'' checkerboard_bmp)))
     (bmp_plane_size checkerboard_bmp) \<and>
   malloc_ok (one_file_world ''checker.bmp'' checkerboard_bmp)
     (Suc (length (heap (one_file_world ''checker.bmp'' checkerboard_bmp))))
     (bmp_stride checkerboard_bmp) \<and>
   bmp_offset checkerboard_bmp + nat (bmp_height checkerboard_bmp) * bmp_stride checkerboard_bmp
     \<le> length checkerboard_bmp \<and>
   (\<exists>plane. load_bmp ''checker.bmp'' vars0 (one_file_world ''checker.bmp'' checkerboard_bmp) =
      Returns (0, \<lparr>width_out = Some 2, height_out = Some 2, image_data_out = Ptr 0\<rparr>,
               (one_file_world ''checker.bmp'' checkerboard_bmp)\<lparr>heap := [Live plane, Freed]\<rparr>) \<and>
      plane = [Some 255, Some 0, Some 0, Some 255])"
proof -
  let ?w = "one_file_world ''checker.bmp'' checkerboard_bmp"
  let ?d = checkerboard_bmp
  note fields = checkerboard_fields checkerboard_height
  have hyp: "files ?w ''checker.bmp'' = Some ?d \<and> 54 \<le> length ?d \<and> bmp_magic ?d = 0x4D42 \<and>
    bmp_depth ?d = 24 \<and> bmp_compression ?d = 0 \<and> 0 < bmp_width ?d \<and>
    3 * bmp_width ?d + 3 < 2 ^ 31 \<and> 0 < bmp_height ?d \<and> bmp_width ?d * bmp_height ?d < 2 ^ 31 \<and>
    malloc_ok ?w (length (heap ?w)) (bmp_plane_size ?d) \<and>
    malloc_ok ?w (Suc (length (heap ?w))) (bmp_stride ?d) \<and>
    bmp_offset ?d + nat (bmp_height ?d) * bmp_stride ?d \<le> length ?d"
    by (simp add: one_file_world_def fields)
  from bottom_up_rows [where w = ?w and name = "''checker.bmp''" and vars = vars0 and d = ?d] hyp
  obtain plane where
    run: "load_bmp ''checker.bmp'' vars0 ?w =
       Returns (0, vars0\<lparr>width_out := Some (bmp_width ?d), height_out := Some (bmp_height ?d),
                          image_data_out := Ptr (length (heap ?w))\<rparr>,
                ?w\<lparr>heap := heap ?w @ [Live plane, Freed]\<rparr>)" and
    len: "length plane = nat (bmp_width ?d) * nat (bmp_height ?d)" and
    cells: "\<forall>y<nat (bmp_height ?d). \<forall>x<nat (bmp_width ?d).
       plane ! ((nat (bmp_height ?d) - 1 - y) * nat (bmp_width ?d) + x)
         = Some (luminance (?d ! (bmp_offset ?d + y * bmp_stride ?d + 3 * x + 2))
                           (?d ! (bmp_offset ?d + y * bmp_stride ?d + 3 * x + 1))
                           (?d ! (bmp_offset ?d + y * bmp_stride ?d + 3 * x)))"
    by blast
  have l4: "length plane = 4" using len by (simp add: fields)
  have p: "plane ! 0 = Some 255" "plane ! 1 = Some 0" "plane ! 2 = Some 0" "plane ! 3 = Some 255"
    using cells [rule_format, of 1 0] cells [rule_format, of 1 1]
      cells [rule_format, of 0 0] cells [rule_format, of 0 1]
    by (simp_all add: fields checkerboard_pixels luminance_white luminance_black)
  have "plane = [Some 255, Some 0, Some 0, Some 255]"
  proof (rule nth_equalityI)
    show "length plane = length [Some 255, Some 0, Some 0, Some (255::byte)]" using l4 by simp
    fix i
    assume "i < length plane"
    then have "i = 0 \<or> i = 1 \<or> i = 2 \<or> i = 3" using l4 by auto
    then show "plane ! i = [Some 255, Some 0, Some 0, Some 255] ! i" using p by auto
  qed
  moreover from run have "load_bmp ''checker.bmp'' vars0 ?w =
      Returns (0, \<lparr>width_out = Some 2, height_out = Some 2, image_data_out = Ptr 0\<rparr>,
               ?w\<lparr>heap := [Live plane, Freed]\<rparr>)"
    by (simp add: fields vars0_def one_file_world_def)
  ultimately show ?thesis using hyp by blast
qed

subsection \<open>C5: failure and validation\<close>

text \<open>
  Claim C5, as stated, fails in one direction. The truncated file has the right magic,
  depth 24 and compression 0, so the validation of its headers succeeds, and yet the load
  fails: a load also fails for reasons other than validation. Nor does every file that
  fails a check make the load fail: the file of width 4 and height \<open>2 ^ 30\<close> has valid
  headers and too few rows, but its plane has \<open>2 ^ 32 mod 2 ^ 32 = 0\<close> bytes and the first
  row is converted to a place outside it, so that the run has no defined result.
\<close>

theorem valid_headers_do_not_suffice:
  "54 \<le> length truncated_bmp \<and> headers_valid truncated_bmp \<and>
   load_bmp ''t.bmp'' vars0 (one_file_world ''t.bmp'' truncated_bmp) =
     Returns (- 1, \<lparr>width_out = Some 1, height_out = Some 2, image_data_out = Ptr 0\<rparr>,
       (one_file_world ''t.bmp'' truncated_bmp)
         \<lparr>heap := [Freed, Freed], stderr := [CouldNotReadRow ''t.bmp'']\<rparr>) \<and>
   54 \<le> length overflow_bmp \<and> headers_valid overflow_bmp \<and>
   bmp_width overflow_bmp = 4 \<and> bmp_rows overflow_bmp = 2 ^ 30 \<and>
   length overflow_bmp < bmp_offset overflow_bmp + nat (bmp_rows overflow_bmp) * bmp_stride overflow_bmp \<and>
   load_bmp ''o.bmp'' vars0 (one_file_world ''o.bmp'' overflow_bmp) = Undefined"
  using truncated_run overflow_run
  by (simp add: headers_valid_def truncated_fields overflow_fields)

text \<open>
  Claim C5, amended. \<^verbatim>\<open>load_bmp\<close> fails without producing a plane whenever validation
  fails: a wrong magic, a depth other than 24 and a non-zero compression each fail with
  their own diagnostic, and each check comes after the read of its header (a file shorter
  than the header fails with the diagnostic of the short read instead, whatever its bytes
  are); this part holds for every input. Validation is not the only cause: a run on a
  file whose dimensions are in range has a defined result, and a run with a defined result
  returns \<open>-1\<close> if and only if one of the checks fails (opening the file, reading both headers
  in full, magic, depth, compression, both allocations, reading every row), and 0 if and
  only if all pass. Every run that returns \<open>-1\<close> leaves the live blocks and the open
  streams of the world as they were: no plane is produced.
\<close>

theorem load_fails_iff_a_check_fails:
  "(\<forall>d. files w name = Some d \<longrightarrow>
        (length d < 14 \<longrightarrow>
           load_bmp name vars w = Returns (- 1, vars, eprint (CouldNotReadFileHeader name) w)) \<and>
        (14 \<le> length d \<and> bmp_magic d \<noteq> 0x4D42 \<longrightarrow>
           load_bmp name vars w = Returns (- 1, vars, eprint (MagicMismatch name) w)) \<and>
        (14 \<le> length d \<and> bmp_magic d = 0x4D42 \<and> length d < 54 \<longrightarrow>
           load_bmp name vars w = Returns (- 1, vars, eprint (CouldNotReadInfoHeader name) w)) \<and>
        (54 \<le> length d \<and> bmp_magic d = 0x4D42 \<and> bmp_depth d \<noteq> 24 \<longrightarrow>
           load_bmp name vars w = Returns (- 1, vars, eprint (Not24Bit name (bmp_depth d)) w)) \<and>
        (54 \<le> length d \<and> bmp_magic d = 0x4D42 \<and> bmp_depth d = 24 \<and> bmp_compression d \<noteq> 0 \<longrightarrow>
           load_bmp name vars w = Returns (- 1, vars, eprint (CompressedNotSupported name) w))) \<and>
   ((\<forall>d. files w name = Some d \<longrightarrow> dimensions_in_range d) \<longrightarrow>
      load_bmp name vars w \<noteq> Undefined) \<and>
   (load_bmp name vars w \<noteq> Undefined \<longrightarrow>
      ((\<exists>vars' w'. load_bmp name vars w = Returns (- 1, vars', w')) \<longleftrightarrow> \<not> checks_pass name w) \<and>
      ((\<exists>vars' w'. load_bmp name vars w = Returns (0, vars', w')) \<longleftrightarrow> checks_pass name w)) \<and>
   (\<forall>vars' w'. load_bmp name vars w = Returns (- 1, vars', w') \<longrightarrow>
      live_blocks w' = live_blocks w \<and> open_handles w' = open_handles w)"
proof -
  have paths: "\<forall>d. files w name = Some d \<longrightarrow>
        (length d < 14 \<longrightarrow>
           load_bmp name vars w = Returns (- 1, vars, eprint (CouldNotReadFileHeader name) w)) \<and>
        (14 \<le> length d \<and> bmp_magic d \<noteq> 0x4D42 \<longrightarrow>
           load_bmp name vars w = Returns (- 1, vars, eprint (MagicMismatch name) w)) \<and>
        (14 \<le> length d \<and> bmp_magic d = 0x4D42 \<and> length d < 54 \<longrightarrow>
           load_bmp name vars w = Returns (- 1, vars, eprint (CouldNotReadInfoHeader name) w)) \<and>
        (54 \<le> length d \<and> bmp_magic d = 0x4D42 \<and> bmp_depth d \<noteq> 24 \<longrightarrow>
           load_bmp name vars w = Returns (- 1, vars, eprint (Not24Bit name (bmp_depth d)) w)) \<and>
        (54 \<le> length d \<and> bmp_magic d = 0x4D42 \<and> bmp_depth d = 24 \<and> bmp_compression d \<noteq> 0 \<longrightarrow>
           load_bmp name vars w = Returns (- 1, vars, eprint (CompressedNotSupported name) w))"
    by (simp add: load_bmp_file)
  have defined: "(\<forall>d. files w name = Some d \<longrightarrow> dimensions_in_range d) \<longrightarrow>
      load_bmp name vars w \<noteq> Undefined"
  proof
    assume "\<forall>d. files w name = Some d \<longrightarrow> dimensions_in_range d"
    then show "load_bmp name vars w \<noteq> Undefined" by (intro load_bmp_defined) simp
  qed
  have iff: "load_bmp name vars w \<noteq> Undefined \<longrightarrow>
      ((\<exists>vars' w'. load_bmp name vars w = Returns (- 1, vars', w')) \<longleftrightarrow> \<not> checks_pass name w) \<and>
      ((\<exists>vars' w'. load_bmp name vars w = Returns (0, vars', w')) \<longleftrightarrow> checks_pass name w)"
  proof
    assume "load_bmp name vars w \<noteq> Undefined"
    then show "((\<exists>vars' w'. load_bmp name vars w = Returns (- 1, vars', w')) \<longleftrightarrow> \<not> checks_pass name w) \<and>
      ((\<exists>vars' w'. load_bmp name vars w = Returns (0, vars', w')) \<longleftrightarrow> checks_pass name w)"
      by (rule load_bmp_result_iff)
  qed
  have rel: "\<forall>vars' w'. load_bmp name vars w = Returns (- 1, vars', w') \<longrightarrow>
        live_blocks w' = live_blocks w \<and> open_handles w' = open_handles w"
  proof (intro allI impI)
    fix vars' w'
    assume a: "load_bmp name vars w = Returns (- 1, vars', w')"
    from load_bmp_failure [OF a] show "live_blocks w' = live_blocks w \<and> open_handles w' = open_handles w"
      by simp
  qed
  show ?thesis by (rule conjI [OF paths conjI [OF defined conjI [OF iff rel]]])
qed

theorem load_fails_iff_a_check_fails_witness:
  "files (one_file_world ''x.bmp'' bad_magic_bmp) ''x.bmp'' = Some bad_magic_bmp \<and>
   dimensions_in_range bad_magic_bmp \<and>
   load_bmp ''x.bmp'' vars0 (one_file_world ''x.bmp'' bad_magic_bmp) \<noteq> Undefined \<and>
   \<not> checks_pass ''x.bmp'' (one_file_world ''x.bmp'' bad_magic_bmp) \<and>
   load_bmp ''x.bmp'' vars0 (one_file_world ''x.bmp'' bad_magic_bmp) =
     Returns (- 1, vars0, eprint (MagicMismatch ''x.bmp'') (one_file_world ''x.bmp'' bad_magic_bmp)) \<and>
   files (one_file_world ''g.bmp'' depth8_bmp) ''g.bmp'' = Some depth8_bmp \<and>
   dimensions_in_range depth8_bmp \<and>
   load_bmp ''g.bmp'' vars0 (one_file_world ''g.bmp'' depth8_bmp) \<noteq> Undefined \<and>
   \<not> checks_pass ''g.bmp'' (one_file_world ''g.bmp'' depth8_bmp) \<and>
   load_bmp ''g.bmp'' vars0 (one_file_world ''g.bmp'' depth8_bmp) =
     Returns (- 1, vars0, eprint (Not24Bit ''g.bmp'' 8) (one_file_world ''g.bmp'' depth8_bmp)) \<and>
   files (one_file_world ''checker.bmp'' checkerboard_bmp) ''checker.bmp'' = Some checkerboard_bmp \<and>
   dimensions_in_range checkerboard_bmp \<and>
   load_bmp ''checker.bmp'' vars0 (one_file_world ''checker.bmp'' checkerboard_bmp) \<noteq> Undefined \<and>
   checks_pass ''checker.bmp'' (one_file_world ''checker.bmp'' checkerboard_bmp) \<and>
   (\<exists>vars' w'. load_bmp ''checker.bmp'' vars0 (one_file_world ''checker.bmp'' checkerboard_bmp) =
      Returns (0, vars', w'))"
proof -
  let ?x = "one_file_world ''x.bmp'' bad_magic_bmp"
  let ?g = "one_file_world ''g.bmp'' depth8_bmp"
  let ?c = "one_file_world ''checker.bmp'' checkerboard_bmp"
  have fx: "files ?x ''x.bmp'' = Some bad_magic_bmp" by (simp add: one_file_world_def)
  have fg: "files ?g ''g.bmp'' = Some depth8_bmp" by (simp add: one_file_world_def)
  have fc: "files ?c ''checker.bmp'' = Some checkerboard_bmp" by (simp add: one_file_world_def)
  note tx = load_fails_iff_a_check_fails [of ?x "''x.bmp''" vars0]
  note tg = load_fails_iff_a_check_fails [of ?g "''g.bmp''" vars0]
  note tc = load_fails_iff_a_check_fails [of ?c "''checker.bmp''" vars0]
  have dx: "load_bmp ''x.bmp'' vars0 ?x \<noteq> Undefined"
    using tx fx sample_dimensions(2) by simp
  have dg: "load_bmp ''g.bmp'' vars0 ?g \<noteq> Undefined"
    using tg fg sample_dimensions(3) by simp
  have dc: "load_bmp ''checker.bmp'' vars0 ?c \<noteq> Undefined"
    using tc fc sample_dimensions(1) by simp
  have vx: "\<not> checks_pass ''x.bmp'' ?x"
    by (simp add: checks_pass_def fx bad_magic_fields)
  have vg: "\<not> checks_pass ''g.bmp'' ?g"
    by (simp add: checks_pass_def fg depth8_fields)
  have vc: "checks_pass ''checker.bmp'' ?c"
    by (simp add: checks_pass_def fc checkerboard_fields rows_available_def one_file_world_def)
  from tc dc vc have rc: "\<exists>vars' w'. load_bmp ''checker.bmp'' vars0 ?c = Returns (0, vars', w')"
    by blast
  from tx fx
  have rx: "load_bmp ''x.bmp'' vars0 ?x = Returns (- 1, vars0, eprint (MagicMismatch ''x.bmp'') ?x)"
    by (simp add: bad_magic_fields)
  from tg fg
  have rg: "load_bmp ''g.bmp'' vars0 ?g = Returns (- 1, vars0, eprint (Not24Bit ''g.bmp'' 8) ?g)"
    by (simp add: depth8_fields)
  show ?thesis
    by (intro conjI fx sample_dimensions dx vx rx fg dg vg rg fc dc vc rc)
qed

subsection \<open>C6: truncated pixel data\<close>

text \<open>
  Claim C6, as stated, fails. The file of width 4 and height \<open>2 ^ 30\<close> ends after its first
  row, long before \<open>2 ^ 30\<close> rows are read, and both allocations are granted; but the plane
  has \<open>2 ^ 32 mod 2 ^ 32 = 0\<close> bytes, the first row is complete, and its first pixel is
  written 4 bytes before the plane (line 124 gives the offset \<open>(2 ^ 30 - 1) * 4\<close> wrapped to
  \<open>-4\<close>). The run has no defined result and never reaches the short row.
\<close>

theorem overflowing_dimensions_are_undefined:
  "files (one_file_world ''o.bmp'' overflow_bmp) ''o.bmp'' = Some overflow_bmp \<and>
   54 \<le> length overflow_bmp \<and> bmp_magic overflow_bmp = 0x4D42 \<and>
   bmp_depth overflow_bmp = 24 \<and> bmp_compression overflow_bmp = 0 \<and>
   malloc_ok (one_file_world ''o.bmp'' overflow_bmp)
     (length (heap (one_file_world ''o.bmp'' overflow_bmp))) (bmp_plane_size overflow_bmp) \<and>
   malloc_ok (one_file_world ''o.bmp'' overflow_bmp)
     (Suc (length (heap (one_file_world ''o.bmp'' overflow_bmp)))) (bmp_stride overflow_bmp) \<and>
   bmp_width overflow_bmp = 4 \<and> bmp_rows overflow_bmp = 2 ^ 30 \<and>
   bmp_stride overflow_bmp = 12 \<and> bmp_plane_size overflow_bmp = 0 \<and>
   length overflow_bmp = 66 \<and>
   length overflow_bmp < bmp_offset overflow_bmp + nat (bmp_rows overflow_bmp) * bmp_stride overflow_bmp \<and>
   load_bmp ''o.bmp'' vars0 (one_file_world ''o.bmp'' overflow_bmp) = Undefined"
  using overflow_run by (simp add: overflow_fields one_file_world_def)

text \<open>
  Claim C6, amended. When the dimensions are in range (with a pixel to convert,
  \<open>3 * W + 3\<close> and \<open>W * H\<close> are below \<open>2 ^ 31\<close>), the headers pass the checks and both
  allocations are granted, but the file ends before \<open>H\<close> rows of \<open>stride\<close> bytes are read
  from the pixel offset on, the run returns \<open>-1\<close> with the diagnostic of the short row
  read; the plane and the scratch buffer are both freed (the pointer left in
  \<^verbatim>\<open>*image_data\<close> addresses no live block) and the stream is closed. Outside that range
  the same holds of every run with a defined result.
\<close>

theorem truncated_pixels_fail_and_release:
  assumes "files w name = Some d" and "54 \<le> length d" and "bmp_magic d = 0x4D42"
    and "bmp_depth d = 24" and "bmp_compression d = 0"
    and "malloc_ok w (length (heap w)) (bmp_plane_size d)"
    and "malloc_ok w (Suc (length (heap w))) (bmp_stride d)"
    and "0 < bmp_rows d" and "0 < bmp_stride d"
    and "length d < bmp_offset d + nat (bmp_rows d) * bmp_stride d"
  shows "(dimensions_in_range d \<longrightarrow> load_bmp name vars w \<noteq> Undefined) \<and>
         (load_bmp name vars w \<noteq> Undefined \<longrightarrow>
           (\<exists>vars' w'. load_bmp name vars w = Returns (- 1, vars', w') \<and>
              stderr w' = stderr w @ [CouldNotReadRow name] \<and>
              heap w' = heap w @ [Freed, Freed] \<and>
              image_data_out vars' = Ptr (length (heap w)) \<and>
              block_cells (image_data_out vars') w' = None \<and>
              live_blocks w' = live_blocks w \<and>
              open_handles w' = open_handles w))"
proof (intro conjI impI)
  assume "dimensions_in_range d"
  then show "load_bmp name vars w \<noteq> Undefined"
    using assms(1) by (intro load_bmp_defined) simp
next
  assume "load_bmp name vars w \<noteq> Undefined"
  then show "\<exists>vars' w'. load_bmp name vars w = Returns (- 1, vars', w') \<and>
              stderr w' = stderr w @ [CouldNotReadRow name] \<and>
              heap w' = heap w @ [Freed, Freed] \<and>
              image_data_out vars' = Ptr (length (heap w)) \<and>
              block_cells (image_data_out vars') w' = None \<and>
              live_blocks w' = live_blocks w \<and>
              open_handles w' = open_handles w"
    by (rule short_rows_fail [OF assms])
qed

theorem truncated_pixels_fail_and_release_witness:
  "files (one_file_world ''t.bmp'' truncated_bmp) ''t.bmp'' = Some truncated_bmp \<and>
   54 \<le> length truncated_bmp \<and> bmp_magic truncated_bmp = 0x4D42 \<and>
   bmp_depth truncated_bmp = 24 \<and> bmp_compression truncated_bmp = 0 \<and>
   malloc_ok (one_file_world ''t.bmp'' truncated_bmp)
     (length (heap (one_file_world ''t.bmp'' truncated_bmp))) (bmp_plane_size truncated_bmp) \<and>
   malloc_ok (one_file_world ''t.bmp'' truncated_bmp)
     (Suc (length (heap (one_file_world ''t.bmp'' truncated_bmp)))) (bmp_stride truncated_bmp) \<and>
   0 < bmp_rows truncated_bmp \<and> 0 < bmp_stride truncated_bmp \<and>
   length truncated_bmp < bmp_offset truncated_bmp + nat (bmp_rows truncated_bmp) * bmp_stride truncated_bmp \<and>
   dimensions_in_range truncated_bmp \<and>
   load_bmp ''t.bmp'' vars0 (one_file_world ''t.bmp'' truncated_bmp) \<noteq> Undefined \<and>
   (\<exists>vars' w'. load_bmp ''t.bmp'' vars0 (one_file_world ''t.bmp'' truncated_bmp) = Returns (- 1, vars', w') \<and>
      stderr w' = [CouldNotReadRow ''t.bmp''] \<and> heap w' = [Freed, Freed] \<and>
      block_cells (image_data_out vars') w' = None \<and> open_handles w' = 0)"
proof -
  let ?w = "one_file_world ''t.bmp'' truncated_bmp"
  have f: "files ?w ''t.bmp'' = Some truncated_bmp" by (simp add: one_file_world_def)
  have m: "malloc_ok ?w (length (heap ?w)) (bmp_plane_size truncated_bmp)"
    "malloc_ok ?w (Suc (length (heap ?w))) (bmp_stride truncated_bmp)"
    by (simp_all add: one_file_world_def)
  have c: "54 \<le> length truncated_bmp" "bmp_magic truncated_bmp = 0x4D42"
    "bmp_depth truncated_bmp = 24" "bmp_compression truncated_bmp = 0"
    "0 < bmp_rows truncated_bmp" "0 < bmp_stride truncated_bmp"
    "length truncated_bmp < bmp_offset truncated_bmp + nat (bmp_rows truncated_bmp) * bmp_stride truncated_bmp"
    by (simp_all add: truncated_fields)
  note t = truncated_pixels_fail_and_release [OF f c(1-4) m c(5-7), of vars0]
  from t sample_dimensions(4) have d: "load_bmp ''t.bmp'' vars0 ?w \<noteq> Undefined" by blast
  with t obtain vars' w' where r: "load_bmp ''t.bmp'' vars0 ?w = Returns (- 1, vars', w')"
    "stderr w' = stderr ?w @ [CouldNotReadRow ''t.bmp'']" "heap w' = heap ?w @ [Freed, Freed]"
    "block_cells (image_data_out vars') w' = None" "open_handles w' = open_handles ?w"
    by blast
  from r(2,3,5) have "stderr w' = [CouldNotReadRow ''t.bmp'']" "heap w' = [Freed, Freed]"
    "open_handles w' = 0"
    by (simp_all add: one_file_world_def)
  with r(1,4) have e: "\<exists>vars' w'. load_bmp ''t.bmp'' vars0 ?w = Returns (- 1, vars', w') \<and>
      stderr w' = [CouldNotReadRow ''t.bmp''] \<and> heap w' = [Freed, Freed] \<and>
      block_cells (image_data_out vars') w' = None \<and> open_handles w' = 0"
    by blast
  show ?thesis by (intro conjI f c m sample_dimensions d e)
qed

subsection \<open>C7: padding bytes\<close>

text \<open>
  Claim C7. If two files have the same length and differ in padding bytes only,
  \<^verbatim>\<open>load_bmp\<close> does the same on both: the same return value, the same outputs, the same
  heap (so the same plane) and the same diagnostics, or no defined behaviour on either.
  The padding bytes are read with their row, and their values do not reach the result.
\<close>

theorem padding_is_ignored:
  assumes f: "files w name = Some d" and s: "same_but_padding d d'"
  shows "load_bmp name vars (w\<lparr>files := (files w)(name \<mapsto> d')\<rparr>) =
     (case load_bmp name vars w of
        Undefined \<Rightarrow> Undefined
      | Returns (r, vars', w') \<Rightarrow> Returns (r, vars', w'\<lparr>files := (files w)(name \<mapsto> d')\<rparr>))"
proof -
  let ?fs = "(files w)(name \<mapsto> d')"
  let ?w2 = "w\<lparr>files := ?fs\<rparr>"
  have f2: "files ?w2 name = Some d'" by simp
  have len: "length d' = length d" using s by (simp add: same_but_padding_def)
  note L = load_bmp_file [OF f, of vars] and L2 = load_bmp_file [OF f2, of vars]
  have ep: "eprint e ?w2 = (eprint e w)\<lparr>files := ?fs\<rparr>" for e
    by (simp add: eprint_def)
  show ?thesis
  proof (cases "length d < 14")
    case True
    then show ?thesis by (simp add: L L2 len ep)
  next
    case l14: False
    then have fh: "bmp_magic d' = bmp_magic d" "bmp_offset d' = bmp_offset d"
      using same_file_header [OF s] by simp_all
    show ?thesis
    proof (cases "bmp_magic d \<noteq> 0x4D42 \<or> length d < 54")
      case True
      then show ?thesis using l14 by (auto simp: L L2 len ep fh)
    next
      case False
      then have l54: "54 \<le> length d" and mg: "bmp_magic d = 0x4D42" by simp_all
      note ih = same_info_header [OF s l54] same_layout [OF s l54]
      show ?thesis
      proof (cases "bmp_depth d \<noteq> 24 \<or> bmp_compression d \<noteq> 0")
        case True
        then show ?thesis using l54 mg by (auto simp: L L2 len ep fh ih)
      next
        case hdr: False
        show ?thesis
        proof (cases "malloc_ok w (length (heap w)) (bmp_plane_size d) \<and>
            malloc_ok w (Suc (length (heap w))) (bmp_stride d)")
          case False
          then show ?thesis using l54 mg hdr
            by (auto simp: L L2 len ep fh ih Let_def eprint_def)
        next
          case True
          let ?rr = "read_rows (bmp_stride d) (bmp_width d) (bmp_rows d) 0
                 \<lparr>data = d, pos = bmp_offset d\<rparr> (replicate (bmp_plane_size d) None)"
          have v: "load_bmp name vars w =
            (case ?rr of
               ShortRead \<Rightarrow>
                 Returns (- 1, vars\<lparr>width_out := Some (bmp_width d), height_out := Some (bmp_rows d),
                            image_data_out := Ptr (length (heap w))\<rparr>,
                   eprint (CouldNotReadRow name) (w\<lparr>heap := heap w @ [Freed, Freed]\<rparr>))
             | OutOfBounds \<Rightarrow> Undefined
             | RowsDone plane \<Rightarrow>
                 Returns (0, vars\<lparr>width_out := Some (bmp_width d), height_out := Some (bmp_rows d),
                           image_data_out := Ptr (length (heap w))\<rparr>,
                   w\<lparr>heap := heap w @ [Live plane, Freed]\<rparr>))"
            using True hdr l54 mg by (intro load_bmp_valid [OF f]) simp_all
          have hw: "heap ?w2 = heap w" "malloc_ok ?w2 = malloc_ok w" by simp_all
          have p: "54 \<le> length d'" "bmp_magic d' = 0x4D42" "bmp_depth d' = 24"
            "bmp_compression d' = 0"
            "malloc_ok ?w2 (length (heap ?w2)) (bmp_plane_size d')"
            "malloc_ok ?w2 (Suc (length (heap ?w2))) (bmp_stride d')"
            using True hdr l54 mg by (simp_all add: len fh ih)
          note v2 = load_bmp_valid [OF f2 p, of vars, unfolded fh ih same_rows [OF s] hw]
          show ?thesis unfolding v v2 by (cases ?rr) (simp_all add: eprint_def)
        qed
      qed
    qed
  qed
qed

theorem padding_is_ignored_witness:
  "files (one_file_world ''checker.bmp'' checkerboard_bmp) ''checker.bmp'' = Some checkerboard_bmp \<and>
   same_but_padding checkerboard_bmp repadded_checkerboard_bmp \<and>
   repadded_checkerboard_bmp \<noteq> checkerboard_bmp \<and>
   load_bmp ''checker.bmp'' vars0 (one_file_world ''checker.bmp'' repadded_checkerboard_bmp) =
     Returns (0, \<lparr>width_out = Some 2, height_out = Some 2, image_data_out = Ptr 0\<rparr>,
              (one_file_world ''checker.bmp'' repadded_checkerboard_bmp)
                \<lparr>heap := [Live [Some 255, Some 0, Some 0, Some 255], Freed]\<rparr>)"
proof -
  let ?w = "one_file_world ''checker.bmp'' checkerboard_bmp"
  have f: "files ?w ''checker.bmp'' = Some checkerboard_bmp" by (simp add: one_file_world_def)
  have w2: "?w\<lparr>files := (files ?w)(''checker.bmp'' \<mapsto> repadded_checkerboard_bmp)\<rparr> =
      one_file_world ''checker.bmp'' repadded_checkerboard_bmp"
    by (simp add: one_file_world_def fun_eq_iff)
  have ne: "repadded_checkerboard_bmp \<noteq> checkerboard_bmp"
    by (simp add: repadded_checkerboard_bmp_def checkerboard_bmp_def bmp_header_def)
  from padding_is_ignored [OF f repadded_same, of vars0]
  have "load_bmp ''checker.bmp'' vars0 (one_file_world ''checker.bmp'' repadded_checkerboard_bmp) =
     Returns (0, \<lparr>width_out = Some 2, height_out = Some 2, image_data_out = Ptr 0\<rparr>,
              (one_file_world ''checker.bmp'' repadded_checkerboard_bmp)
                \<lparr>heap := [Live [Some 255, Some 0, Some 0, Some 255], Freed]\<rparr>)"
    unfolding w2 checkerboard_run by (simp add: one_file_world_def fun_eq_iff)
  with f repadded_same ne show ?thesis by simp
qed

subsection \<open>C8: the arguments of the program\<close>

text \<open>
  Claim C8, as stated, fails. Called with a second argument after the file path, the
  program prints no usage line: it loads the file named first and, with a recognizer that
  finds no code, reports that and exits with status 0.
\<close>

theorem extra_arguments_are_accepted:
  "int (length [''quirc'', ''checker.bmp'', ''extra'']) > 2 \<and>
   main no_codes_quirc [''quirc'', ''checker.bmp'', ''extra'']
     (one_file_world ''checker.bmp'' checkerboard_bmp) =
     Returns (0, (one_file_world ''checker.bmp'' checkerboard_bmp)
                   \<lparr>heap := [Freed, Freed], stdout := [NoCodesFound]\<rparr>)"
  using checkerboard_run
  by (simp add: main_def vars0_def no_codes_quirc_def block_cells_def size_t_def free_def
      print_def one_file_world_def)

text \<open>
  Claim C8, amended. The program requires at least one argument: called without a file
  path (\<open>argc < 2\<close>) it prints the usage line to the diagnostic stream and exits with status
  1, and nothing else in the world changes (no file is opened). Arguments after the first
  are not rejected but ignored: the run is that of the first argument alone.
\<close>

theorem main_argument_check:
  "(int (length argv) < 2 \<longrightarrow>
      main q argv w = Returns (1, eprint (Usage (if argv = [] then None else Some (argv ! 0))) w)) \<and>
   (2 \<le> int (length argv) \<longrightarrow> main q argv w = main q [argv ! 0, argv ! 1] w)"
proof -
  have h: "[argv ! 0, argv ! 1] ! 1 = argv ! 1" by simp
  show ?thesis unfolding main_def h by simp
qed

theorem main_argument_check_witness:
  "int (length [''quirc'']) < 2 \<and>
   main no_codes_quirc [''quirc''] (one_file_world ''checker.bmp'' checkerboard_bmp) =
     Returns (1, (one_file_world ''checker.bmp'' checkerboard_bmp)
                   \<lparr>stderr := [Usage (Some ''quirc'')]\<rparr>) \<and>
   2 \<le> int (length [''quirc'', ''checker.bmp'', ''extra'']) \<and>
   main no_codes_quirc [''quirc'', ''checker.bmp'', ''extra'']
     (one_file_world ''checker.bmp'' checkerboard_bmp) =
   main no_codes_quirc [''quirc'', ''checker.bmp'']
     (one_file_world ''checker.bmp'' checkerboard_bmp)"
  using main_argument_check [of "[''quirc'']" no_codes_quirc
      "one_file_world ''checker.bmp'' checkerboard_bmp"]
    main_argument_check [of "[''quirc'', ''checker.bmp'', ''extra'']" no_codes_quirc
      "one_file_world ''checker.bmp'' checkerboard_bmp"]
  by (simp add: eprint_def one_file_world_def)

subsection \<open>C9: the outputs after a late failure\<close>

text \<open>
  Claim C9. When \<^verbatim>\<open>load_bmp\<close> fails because the row buffer cannot be allocated or because
  a pixel row is short, it returns \<open>-1\<close> but has stored the parsed width and the magnitude
  of the parsed height in \<^verbatim>\<open>*width\<close> and \<^verbatim>\<open>*height\<close>, and \<^verbatim>\<open>*image_data\<close> still holds the
  address of the plane, a block that is freed by then: the outputs are neither restored
  nor set to \<^verbatim>\<open>NULL\<close>.
\<close>

theorem late_failure_leaves_outputs:
  assumes "load_bmp name vars w = Returns (r, vars', w')"
    and "stderr w' = stderr w @ [e]"
    and "e = CouldNotAllocateRow \<or> e = CouldNotReadRow name"
  shows "r = - 1 \<and>
         (\<exists>d. files w name = Some d \<and> width_out vars' = Some (bmp_width d) \<and>
              height_out vars' = Some (bmp_rows d)) \<and>
         image_data_out vars' = Ptr (length (heap w)) \<and>
         length (heap w) < length (heap w') \<and> heap w' ! length (heap w) = Freed \<and>
         block_cells (image_data_out vars') w' = None"
proof (cases "files w name")
  case None
  with assms show ?thesis by (auto simp: load_bmp_no_file eprint_fields)
next
  case (Some d)
  with assms show ?thesis
    by (auto simp: load_bmp_file [OF Some] Let_def eprint_fields nth_append block_cells_def
        split: if_splits rows_result.splits)
qed

theorem late_failure_leaves_outputs_witness:
  "load_bmp ''t.bmp'' vars0 (one_file_world ''t.bmp'' truncated_bmp) =
     Returns (- 1, \<lparr>width_out = Some 1, height_out = Some 2, image_data_out = Ptr 0\<rparr>,
       (one_file_world ''t.bmp'' truncated_bmp)
         \<lparr>heap := [Freed, Freed], stderr := [CouldNotReadRow ''t.bmp'']\<rparr>) \<and>
   bmp_width truncated_bmp = 1 \<and> bmp_rows truncated_bmp = 2 \<and>
   heap ((one_file_world ''t.bmp'' truncated_bmp)
         \<lparr>heap := [Freed, Freed], stderr := [CouldNotReadRow ''t.bmp'']\<rparr>) ! 0 = Freed \<and>
   block_cells (Ptr 0) ((one_file_world ''t.bmp'' truncated_bmp)
         \<lparr>heap := [Freed, Freed], stderr := [CouldNotReadRow ''t.bmp'']\<rparr>) = None"
proof -
  let ?w = "one_file_world ''t.bmp'' truncated_bmp"
  let ?w' = "?w\<lparr>heap := [Freed, Freed], stderr := [CouldNotReadRow ''t.bmp'']\<rparr>"
  have s: "stderr ?w' = stderr ?w @ [CouldNotReadRow ''t.bmp'']" by (simp add: one_file_world_def)
  from late_failure_leaves_outputs [OF truncated_run s]
  have "heap ?w' ! length (heap ?w) = Freed \<and>
     block_cells (image_data_out \<lparr>width_out = Some 1, height_out = Some 2, image_data_out = Ptr 0\<rparr>) ?w' = None"
    by simp
  then show ?thesis using truncated_run by (simp add: truncated_fields one_file_world_def)
qed

subsection \<open>C10: the size of the plane\<close>

text \<open>
  Claim C10. For a file whose headers pass the checks, the size asked of \<^verbatim>\<open>malloc\<close> for the
  plane is the product of \<^verbatim>\<open>*width\<close> and \<^verbatim>\<open>*height\<close> wrapped to 32 bits and converted to
  \<^verbatim>\<open>size_t\<close>: the load fails with the allocation diagnostic exactly when the allocator
  refuses that size, a successful load returns a plane of exactly that many bytes, and
  that size is congruent to the product modulo \<open>2 ^ 32\<close>. It equals the product when the
  product lies between 0 and \<open>2 ^ 31 - 1\<close>, and differs from it whenever the product
  exceeds \<open>2 ^ 31 - 1\<close>.
\<close>

theorem plane_request_is_wrapped_product:
  assumes "files w name = Some d" and "54 \<le> length d" and "bmp_magic d = 0x4D42"
    and "bmp_depth d = 24" and "bmp_compression d = 0"
  shows
    "(load_bmp name vars w =
        Returns (- 1, vars\<lparr>width_out := Some (bmp_width d), height_out := Some (bmp_rows d),
                           image_data_out := NULL\<rparr>, eprint CouldNotAllocateImage w)
      \<longleftrightarrow> \<not> malloc_ok w (length (heap w)) (size_t (wrap32 (bmp_width d * bmp_rows d)))) \<and>
     (\<forall>vars' w'. load_bmp name vars w = Returns (0, vars', w') \<longrightarrow>
        (\<exists>plane. block_cells (image_data_out vars') w' = Some plane \<and>
           length plane = size_t (wrap32 (bmp_width d * bmp_rows d)))) \<and>
     int (size_t (wrap32 (bmp_width d * bmp_rows d))) mod 2 ^ 32
       = (bmp_width d * bmp_rows d) mod 2 ^ 32 \<and>
     (0 \<le> bmp_width d * bmp_rows d \<and> bmp_width d * bmp_rows d \<le> 2 ^ 31 - 1 \<longrightarrow>
        size_t (wrap32 (bmp_width d * bmp_rows d)) = nat (bmp_width d * bmp_rows d)) \<and>
     (2 ^ 31 - 1 < bmp_width d * bmp_rows d \<longrightarrow>
        size_t (wrap32 (bmp_width d * bmp_rows d)) \<noteq> nat (bmp_width d * bmp_rows d))"
proof (intro conjI)
  show "(load_bmp name vars w =
        Returns (- 1, vars\<lparr>width_out := Some (bmp_width d), height_out := Some (bmp_rows d),
                           image_data_out := NULL\<rparr>, eprint CouldNotAllocateImage w))
      \<longleftrightarrow> (\<not> malloc_ok w (length (heap w)) (size_t (wrap32 (bmp_width d * bmp_rows d))))"
    using assms(2-5)
    by (auto simp: load_bmp_file [OF assms(1)] Let_def bmp_plane_size_def eprint_def
        split: rows_result.splits dest: arg_cong [where f = image_data_out])
next
  show "\<forall>vars' w'. load_bmp name vars w = Returns (0, vars', w') \<longrightarrow>
        (\<exists>plane. block_cells (image_data_out vars') w' = Some plane \<and>
           length plane = size_t (wrap32 (bmp_width d * bmp_rows d)))"
  proof (intro allI impI)
    fix vars' w'
    assume "load_bmp name vars w = Returns (0, vars', w')"
    from successful_load_plane [OF this] assms(1)
    show "\<exists>plane. block_cells (image_data_out vars') w' = Some plane \<and>
           length plane = size_t (wrap32 (bmp_width d * bmp_rows d))"
      by (auto simp: bmp_plane_size_def)
  qed
next
  show "int (size_t (wrap32 (bmp_width d * bmp_rows d))) mod 2 ^ 32
       = (bmp_width d * bmp_rows d) mod 2 ^ 32"
    by (rule plane_request_mod)
next
  show "0 \<le> bmp_width d * bmp_rows d \<and> bmp_width d * bmp_rows d \<le> 2 ^ 31 - 1 \<longrightarrow>
        size_t (wrap32 (bmp_width d * bmp_rows d)) = nat (bmp_width d * bmp_rows d)"
    by (simp add: plane_request_fits)
next
  show "2 ^ 31 - 1 < bmp_width d * bmp_rows d \<longrightarrow>
        size_t (wrap32 (bmp_width d * bmp_rows d)) \<noteq> nat (bmp_width d * bmp_rows d)"
  proof
    assume a: "2 ^ 31 - 1 < bmp_width d * bmp_rows d"
    have b: "bmp_width d * bmp_rows d \<le> 2 ^ 62"
      by (rule product_bound [OF bmp_dims_range(1,2,5,6)])
    show "size_t (wrap32 (bmp_width d * bmp_rows d)) \<noteq> nat (bmp_width d * bmp_rows d)"
      by (rule plane_request_wraps [OF a b])
  qed
qed

theorem plane_request_is_wrapped_product_witness:
  "(load_bmp ''checker.bmp'' vars0 (one_file_world ''checker.bmp'' checkerboard_bmp) =
      Returns (0, \<lparr>width_out = Some 2, height_out = Some 2, image_data_out = Ptr 0\<rparr>,
               (one_file_world ''checker.bmp'' checkerboard_bmp)
                 \<lparr>heap := [Live [Some 255, Some 0, Some 0, Some 255], Freed]\<rparr>)) \<and>
   0 \<le> bmp_width checkerboard_bmp * bmp_rows checkerboard_bmp \<and>
   bmp_width checkerboard_bmp * bmp_rows checkerboard_bmp \<le> 2 ^ 31 - 1 \<and>
   size_t (wrap32 (bmp_width checkerboard_bmp * bmp_rows checkerboard_bmp)) = 4 \<and>
   2 ^ 31 - 1 < bmp_width huge_bmp * bmp_rows huge_bmp \<and>
   bmp_width huge_bmp * bmp_rows huge_bmp = 2 ^ 32 \<and>
   size_t (wrap32 (bmp_width huge_bmp * bmp_rows huge_bmp)) = 0 \<and>
   size_t (wrap32 (bmp_width huge_bmp * bmp_rows huge_bmp))
     \<noteq> nat (bmp_width huge_bmp * bmp_rows huge_bmp)"
proof -
  let ?w = "one_file_world ''checker.bmp'' checkerboard_bmp"
  have run: "load_bmp ''checker.bmp'' vars0 ?w =
      Returns (0, \<lparr>width_out = Some 2, height_out = Some 2, image_data_out = Ptr 0\<rparr>,
               ?w\<lparr>heap := [Live [Some 255, Some 0, Some 0, Some 255], Freed]\<rparr>)"
    by (simp add: load_bmp_file [where d = checkerboard_bmp] checkerboard_fields checkerboard_rows
        one_file_world_def vars0_def)
  have f1: "files ?w ''checker.bmp'' = Some checkerboard_bmp"
    by (simp add: one_file_world_def)
  have f2: "files (one_file_world ''huge.bmp'' huge_bmp) ''huge.bmp'' = Some huge_bmp"
    by (simp add: one_file_world_def)
  have small: "size_t (wrap32 (bmp_width checkerboard_bmp * bmp_rows checkerboard_bmp)) = 4"
    using plane_request_is_wrapped_product [OF f1, of vars0]
    by (simp add: checkerboard_fields)
  have big: "size_t (wrap32 (bmp_width huge_bmp * bmp_rows huge_bmp))
     \<noteq> nat (bmp_width huge_bmp * bmp_rows huge_bmp)"
    using plane_request_is_wrapped_product [OF f2, of vars0]
    by (simp add: huge_fields)
  have zero: "size_t (wrap32 (bmp_width huge_bmp * bmp_rows huge_bmp)) = 0"
    by (simp add: huge_fields wrap32_def size_t_def)
  from run small big zero show ?thesis
    by (simp add: checkerboard_fields huge_fields)
qed

end
